theory Spec2Isabelle
  imports Main "HOL-Library.AList"
begin

section \<open>Python values\<close>

text \<open>
  The supervisor (\<^verbatim>\<open>agent.py\<close>) works on JSON-like payloads and on the objects its
  collaborators hand back. A value is one of the JSON shapes or a plain object with
  attributes (\<open>PObj\<close>: \<^verbatim>\<open>hasattr\<close> is membership among the attribute names, and it has
  no methods of its own). A dictionary is an association list in insertion order with
  distinct keys. Text is ASCII: one \<open>char\<close> per code point.
\<close>

datatype pyval =
    PNone
  | PBool bool
  | PInt int
  | PStr string
  | PList "pyval list"
  | PDict "(string \<times> pyval) list"
  | PObj "(string \<times> pyval) list"

text \<open>An exception carries the text that \<^verbatim>\<open>str(e)\<close> gives.\<close>

datatype pyerr = AttributeError string | TypeError string | Raised string

fun err_str :: "pyerr \<Rightarrow> string" where
  "err_str (AttributeError m) = m"
| "err_str (TypeError m) = m"
| "err_str (Raised m) = m"

definition ebind :: "pyerr + 'a \<Rightarrow> ('a \<Rightarrow> pyerr + 'b) \<Rightarrow> pyerr + 'b" where
  "ebind m f = (case m of Inl e \<Rightarrow> Inl e | Inr x \<Rightarrow> f x)"

definition nl :: string where
  "nl = [CHR 0x0A]"

definition sq :: string where
  "sq = [CHR 0x27]"

fun type_name :: "pyval \<Rightarrow> string" where
  "type_name PNone = ''NoneType''"
| "type_name (PBool b) = ''bool''"
| "type_name (PInt i) = ''int''"
| "type_name (PStr s) = ''str''"
| "type_name (PList xs) = ''list''"
| "type_name (PDict kvs) = ''dict''"
| "type_name (PObj attrs) = ''object''"

definition no_attribute :: "pyval \<Rightarrow> string \<Rightarrow> pyerr" where
  "no_attribute v a =
     AttributeError (sq @ type_name v @ sq @ '' object has no attribute '' @ sq @ a @ sq)"

text \<open>Truth value of a value, as \<^verbatim>\<open>if v\<close>, \<^verbatim>\<open>not v\<close> and \<^verbatim>\<open>v or w\<close> test it.\<close>

fun truthy :: "pyval \<Rightarrow> bool" where
  "truthy PNone = False"
| "truthy (PBool b) = b"
| "truthy (PInt i) = (i \<noteq> 0)"
| "truthy (PStr s) = (s \<noteq> [])"
| "truthy (PList xs) = (xs \<noteq> [])"
| "truthy (PDict kvs) = (kvs \<noteq> [])"
| "truthy (PObj attrs) = True"

text \<open>\<^verbatim>\<open>v.get(k, d)\<close>: only a dictionary has the method.\<close>

fun dict_get :: "pyval \<Rightarrow> string \<Rightarrow> pyval \<Rightarrow> pyerr + pyval" where
  "dict_get (PDict kvs) k d = Inr (case map_of kvs k of Some v \<Rightarrow> v | None \<Rightarrow> d)"
| "dict_get v k d = Inl (no_attribute v ''get'')"

text \<open>\<^verbatim>\<open>d.get(k, dflt)\<close> on a value known to be a dictionary.\<close>

definition lookup :: "(string \<times> pyval) list \<Rightarrow> string \<Rightarrow> pyval \<Rightarrow> pyval" where
  "lookup kvs k d = (case map_of kvs k of Some v \<Rightarrow> v | None \<Rightarrow> d)"

text \<open>\<^verbatim>\<open>for x in v\<close>, \<^verbatim>\<open>list(v)\<close>: a string yields its characters, a dictionary its keys.\<close>

fun py_iter :: "pyval \<Rightarrow> pyerr + pyval list" where
  "py_iter (PList xs) = Inr xs"
| "py_iter (PStr s) = Inr (map (\<lambda>c. PStr [c]) s)"
| "py_iter (PDict kvs) = Inr (map (\<lambda>kv. PStr (fst kv)) kvs)"
| "py_iter v = Inl (TypeError (sq @ type_name v @ sq @ '' object is not iterable''))"

fun py_len :: "pyval \<Rightarrow> pyerr + nat" where
  "py_len (PList xs) = Inr (length xs)"
| "py_len (PStr s) = Inr (length s)"
| "py_len (PDict kvs) = Inr (length kvs)"
| "py_len v = Inl (TypeError (''object of type '' @ sq @ type_name v @ sq @ '' has no len()''))"

text \<open>\<^verbatim>\<open>xs[-n:]\<close> on a list.\<close>

definition last_n :: "nat \<Rightarrow> 'a list \<Rightarrow> 'a list" where
  "last_n n xs = drop (length xs - n) xs"

subsection \<open>Text\<close>

definition lower_char :: "char \<Rightarrow> char" where
  "lower_char c = (let n = (of_char c :: nat) in if 65 \<le> n \<and> n \<le> 90 then char_of (n + 32) else c)"

definition upper_char :: "char \<Rightarrow> char" where
  "upper_char c = (let n = (of_char c :: nat) in if 97 \<le> n \<and> n \<le> 122 then char_of (n - 32) else c)"

definition is_lower :: "char \<Rightarrow> bool" where
  "is_lower c = (let n = (of_char c :: nat) in 97 \<le> n \<and> n \<le> 122)"

definition is_upper :: "char \<Rightarrow> bool" where
  "is_upper c = (let n = (of_char c :: nat) in 65 \<le> n \<and> n \<le> 90)"

definition lower :: "string \<Rightarrow> string" where
  "lower s = map lower_char s"

definition upper :: "string \<Rightarrow> string" where
  "upper s = map upper_char s"

text \<open>
  \<^verbatim>\<open>s.title()\<close>: a letter that follows a letter is lowered, any other letter is raised.
  The flag says whether the previous character was a letter.
\<close>

fun title_from :: "bool \<Rightarrow> string \<Rightarrow> string" where
  "title_from prev [] = []"
| "title_from prev (c # cs) =
     (if is_lower c then (if prev then c else upper_char c) # title_from True cs
      else if is_upper c then (if prev then lower_char c else c) # title_from True cs
      else c # title_from False cs)"

definition title :: "string \<Rightarrow> string" where
  "title s = title_from False s"

text \<open>\<^verbatim>\<open>needle in haystack\<close> on two strings.\<close>

fun starts_with :: "string \<Rightarrow> string \<Rightarrow> bool" where
  "starts_with [] s = True"
| "starts_with (p # ps) [] = False"
| "starts_with (p # ps) (c # cs) = (p = c \<and> starts_with ps cs)"

fun contains :: "string \<Rightarrow> string \<Rightarrow> bool" where
  "contains needle [] = (needle = [])"
| "contains needle (c # cs) = (starts_with needle (c # cs) \<or> contains needle cs)"

definition ends_with :: "string \<Rightarrow> string \<Rightarrow> bool" where
  "ends_with p s = starts_with (rev p) (rev s)"

text \<open>\<^verbatim>\<open>sep.join(parts)\<close> on strings.\<close>

fun join :: "string \<Rightarrow> string list \<Rightarrow> string" where
  "join sep [] = []"
| "join sep [p] = p"
| "join sep (p # q # ps) = p @ sep @ join sep (q # ps)"

text \<open>Decimal digits of a number, as \<^verbatim>\<open>str\<close> prints an \<^verbatim>\<open>int\<close>.\<close>

function dec :: "nat \<Rightarrow> string" where
  "dec n = (if n < 10 then [char_of (48 + n)] else dec (n div 10) @ [char_of (48 + n mod 10)])"
  by pat_completeness auto
termination
  by (relation "measure id") auto

declare dec.simps [simp del]

definition str_int :: "int \<Rightarrow> string" where
  "str_int i = (if i < 0 then CHR ''-'' # dec (nat (- i)) else dec (nat i))"

text \<open>
  \<^verbatim>\<open>str(v)\<close>, which is also what an f-string field prints. Text prints as itself.
  How Python prints a container or an object is not part of this program: it is the
  parameter \<open>repr\<close>.
\<close>

fun py_str :: "(pyval \<Rightarrow> string) \<Rightarrow> pyval \<Rightarrow> string" where
  "py_str repr (PStr s) = s"
| "py_str repr PNone = ''None''"
| "py_str repr (PBool b) = (if b then ''True'' else ''False'')"
| "py_str repr (PInt i) = str_int i"
| "py_str repr v = repr v"

text \<open>\<^verbatim>\<open>sep.join(v)\<close>: every item of the iterable has to be text.\<close>

fun all_text :: "pyval list \<Rightarrow> string list option" where
  "all_text [] = Some []"
| "all_text (PStr s # vs) = (case all_text vs of Some ss \<Rightarrow> Some (s # ss) | None \<Rightarrow> None)"
| "all_text (v # vs) = None"

definition py_join :: "string \<Rightarrow> pyval \<Rightarrow> pyerr + string" where
  "py_join sep v =
     (case py_iter v of
        Inl e \<Rightarrow> Inl (TypeError ''can only join an iterable'')
      | Inr items \<Rightarrow>
          (case all_text items of
             Some ss \<Rightarrow> Inr (join sep ss)
           | None \<Rightarrow> Inl (TypeError ''sequence item: expected str instance'')))"

subsection \<open>Loops with exceptions\<close>

text \<open>
  \<^verbatim>\<open>for x in xs: body\<close> where the body may raise: \<open>efold\<close> lets the exception out,
  \<open>efold_try\<close> is the loop inside a \<^verbatim>\<open>try\<close> whose handler goes on with the state
  reached when the exception was raised.
\<close>

fun efold :: "('a \<Rightarrow> 's \<Rightarrow> pyerr + 's) \<Rightarrow> 'a list \<Rightarrow> 's \<Rightarrow> pyerr + 's" where
  "efold f [] s = Inr s"
| "efold f (x # xs) s = (case f x s of Inl e \<Rightarrow> Inl e | Inr s' \<Rightarrow> efold f xs s')"

fun efold_try :: "('a \<Rightarrow> 's \<Rightarrow> pyerr + 's) \<Rightarrow> 'a list \<Rightarrow> 's \<Rightarrow> 's \<times> pyerr option" where
  "efold_try f [] s = (s, None)"
| "efold_try f (x # xs) s = (case f x s of Inl e \<Rightarrow> (s, Some e) | Inr s' \<Rightarrow> efold_try f xs s')"

section \<open>Collaborators\<close>

text \<open>
  What the supervisor calls and does not define: the Memory Store client, the decision
  step (the Strands agent), the two parsers of the standard library, the printing of
  containers, and the clock (one reading serves a request). \<open>MemoryClient\<close> is the
  outcome of constructing the client. \<open>conversation\<close> is \<open>None\<close> when the agent has
  no such attribute.
\<close>

record env =
  MEMORY_ID :: string
  BEDROCK_MODEL_ID :: string
  MemoryClient :: "pyerr option"
  get_last_k_turns :: "string \<Rightarrow> pyval \<Rightarrow> pyval \<Rightarrow> nat \<Rightarrow> pyerr + pyval"
  retrieve_memories :: "string \<Rightarrow> string \<Rightarrow> pyval \<Rightarrow> nat \<Rightarrow> pyerr + pyval"
  invoke_async :: "string \<Rightarrow> pyerr + pyval"
  conversation :: "pyval option"
  json_loads :: "string \<Rightarrow> pyerr + pyval"
  literal_eval :: "string \<Rightarrow> pyerr + pyval"
  repr :: "pyval \<Rightarrow> string"
  now :: string

text \<open>The calls a request makes to the Memory Store and to the decision step, in order.\<close>

datatype event =
    MemoryClientInit
  | GetLastKTurns string pyval pyval nat
  | RetrieveMemories string string pyval nat
  | InvokeAgent string

section \<open>Memory assembly (\<^verbatim>\<open>process_request\<close>, the prompt)\<close>

definition warning_sign :: string where
  "warning_sign = [CHR 0xE2, CHR 0x9A, CHR 0xA0, CHR 0xEF, CHR 0xB8, CHR 0x8F]"

definition py_upper :: "pyval \<Rightarrow> pyerr + string" where
  "py_upper v = (case v of PStr s \<Rightarrow> Inr (upper s) | _ \<Rightarrow> Inl (no_attribute v ''upper''))"

definition py_title :: "pyval \<Rightarrow> pyerr + string" where
  "py_title v = (case v of PStr s \<Rightarrow> Inr (title s) | _ \<Rightarrow> Inl (no_attribute v ''title''))"

text \<open>The \<^verbatim>\<open>user_context\<close> dictionary of \<^verbatim>\<open>process_request\<close>.\<close>

definition user_context :: "pyval \<Rightarrow> pyerr + (string \<times> pyval) list" where
  "user_context context =
     (if truthy context then
        ebind (dict_get context ''user_id'' (PStr ''anonymous'')) (\<lambda>user_id.
        ebind (dict_get context ''username'' (PStr ''Anonymous'')) (\<lambda>username.
        ebind (dict_get context ''department'' (PStr ''general'')) (\<lambda>department.
        ebind (dict_get context ''permissions'' (PList [])) (\<lambda>permissions.
        ebind (dict_get context ''authenticated'' (PBool False)) (\<lambda>authenticated.
        Inr [(''user_id'', user_id), (''username'', username), (''department'', department),
             (''permissions'', permissions), (''authenticated'', authenticated)])))))
      else
        Inr [(''user_id'', PStr ''anonymous''), (''username'', PStr ''Anonymous''),
             (''department'', PStr ''general''), (''permissions'', PList []),
             (''authenticated'', PBool False)])"

subsection \<open>In-session history\<close>

definition previous_header :: string where
  "previous_header =
     nl @ ''=== PREVIOUS CONVERSATION (YOU MUST USE THIS FOR MEMORY QUESTIONS) ==='' @ nl"

definition previous_footer :: string where
  "previous_footer =
     ''=== END OF PREVIOUS CONVERSATION ==='' @ nl @ nl
     @ ''CRITICAL: If the user asks about information from the conversation above (like their name, preferences, or what they told you), you MUST reference it from the Previous Conversation section.''
     @ nl"

text \<open>One pass of the loop over \<^verbatim>\<open>conversation_history[-6:]\<close>.\<close>

definition conversation_line :: "(pyval \<Rightarrow> string) \<Rightarrow> pyval \<Rightarrow> string \<Rightarrow> pyerr + string" where
  "conversation_line rp msg history_text =
     ebind (dict_get msg ''role'' (PStr ''unknown'')) (\<lambda>role.
     ebind (dict_get msg ''content'' (PStr [])) (\<lambda>content.
     ebind (py_upper role) (\<lambda>r.
     Inr (history_text @ r @ '': '' @ py_str rp content @ nl))))"

text \<open>
  The branch \<^verbatim>\<open>elif conversation_history\<close>. Only a list can be sliced and then holds
  dictionaries; the characters of a sliced string have no \<^verbatim>\<open>get\<close>.
\<close>

definition previous_conversation :: "(pyval \<Rightarrow> string) \<Rightarrow> pyval \<Rightarrow> pyerr + string" where
  "previous_conversation rp conversation_history =
     (case conversation_history of
        PList msgs \<Rightarrow>
          ebind (efold (conversation_line rp) (last_n 6 msgs) previous_header)
            (\<lambda>history_text. Inr (history_text @ previous_footer))
      | PStr s \<Rightarrow>
          ebind (efold (conversation_line rp) (map (\<lambda>c. PStr [c]) (last_n 6 s)) previous_header)
            (\<lambda>history_text. Inr (history_text @ previous_footer))
      | PDict kvs \<Rightarrow> Inl (TypeError (''unhashable type: '' @ sq @ ''slice'' @ sq))
      | _ \<Rightarrow>
          Inl (TypeError (sq @ type_name conversation_history @ sq
                 @ '' object is not subscriptable'')))"

definition no_previous_conversation :: string where
  "no_previous_conversation =
     nl @ ''=== NO PREVIOUS CONVERSATION ==='' @ nl
     @ ''This is the first message in the session.'' @ nl"

subsection \<open>Long-term memory\<close>

definition preferences_header :: string where
  "preferences_header = nl @ ''=== LONG-TERM MEMORY (USER PREFERENCES/FACTS) ==='' @ nl"

definition preferences_footer :: string where
  "preferences_footer =
     ''=== END OF LONG-TERM MEMORY ==='' @ nl @ nl
     @ ''CRITICAL: The above information is from PREVIOUS SESSIONS (Long-Term Memory). Use this to answer questions about the user''
     @ sq @ ''s preferences or past information.'' @ nl"

definition sessions_header :: string where
  "sessions_header = nl @ ''=== LONG-TERM MEMORY (FROM PREVIOUS SESSIONS) ==='' @ nl"

definition sessions_footer :: string where
  "sessions_footer =
     ''=== END OF LONG-TERM MEMORY ==='' @ nl @ nl
     @ ''CRITICAL: The above conversation is from PREVIOUS SESSIONS (Long-Term Memory). If the user asks about their name, preferences, or past information, use this LTM data.''
     @ nl"

definition no_history_header :: string where
  "no_history_header = nl @ ''=== NO CONVERSATION HISTORY IN THIS SESSION ==='' @ nl"

text \<open>The notice of the \<^verbatim>\<open>else\<close> branch: no turns were found.\<close>

definition no_ltm_found :: "(pyval \<Rightarrow> string) \<Rightarrow> pyval \<Rightarrow> string" where
  "no_ltm_found rp user_id_for_ltm =
     no_history_header
     @ warning_sign @ '' This is a NEW session for user_id '' @ sq @ py_str rp user_id_for_ltm @ sq
     @ '', but no Long-Term Memory (LTM) found from previous sessions.'' @ nl"

text \<open>The notice of the handler: the retrieval raised.\<close>

definition ltm_failed :: "(pyval \<Rightarrow> string) \<Rightarrow> pyval \<Rightarrow> string" where
  "ltm_failed rp user_id_for_ltm =
     no_history_header
     @ warning_sign @ '' This is a NEW session for user_id '' @ sq @ py_str rp user_id_for_ltm @ sq
     @ ''.'' @ nl"

text \<open>One pass of \<^verbatim>\<open>for memory in memories\<close>.\<close>

definition memory_line :: "(pyval \<Rightarrow> string) \<Rightarrow> pyval \<Rightarrow> string \<Rightarrow> pyerr + string" where
  "memory_line rp memory history_text =
     ebind (dict_get memory ''content'' (PDict [])) (\<lambda>c.
     ebind (dict_get c ''text'' (PStr [])) (\<lambda>content.
     Inr (if truthy content then history_text @ py_str rp content @ nl else history_text)))"

text \<open>
  \<^verbatim>\<open>history_text\<close> after the inner \<^verbatim>\<open>try\<close> of the semantic search, from the empty
  text it starts with; the argument is what \<^verbatim>\<open>retrieve_memories\<close> did.
\<close>

definition semantic_block :: "(pyval \<Rightarrow> string) \<Rightarrow> pyerr + pyval \<Rightarrow> string" where
  "semantic_block rp retrieved =
     (case retrieved of
        Inl e2 \<Rightarrow> []
      | Inr memories \<Rightarrow>
          if truthy memories then
            (case py_len memories of
               Inl e2 \<Rightarrow> []
             | Inr n \<Rightarrow>
                 (case py_iter memories of
                    Inl e2 \<Rightarrow> preferences_header
                  | Inr ms \<Rightarrow>
                      (case efold_try (memory_line rp) ms preferences_header of
                         (history_text, Some e2) \<Rightarrow> history_text
                       | (history_text, None) \<Rightarrow> history_text @ preferences_footer)))
          else [])"

text \<open>One pass of \<^verbatim>\<open>for message in turn\<close>, and one of \<^verbatim>\<open>for turn in recent_turns\<close>.\<close>

definition message_line :: "(pyval \<Rightarrow> string) \<Rightarrow> pyval \<Rightarrow> string \<Rightarrow> pyerr + string" where
  "message_line rp message history_text =
     ebind (dict_get message ''role'' (PStr ''unknown'')) (\<lambda>role.
     ebind (dict_get message ''content'' (PDict [])) (\<lambda>c.
     ebind (dict_get c ''text'' (PStr [])) (\<lambda>content.
     if truthy content then
       ebind (py_upper role) (\<lambda>r. Inr (history_text @ r @ '': '' @ py_str rp content @ nl))
     else Inr history_text)))"

definition turn_lines :: "(pyval \<Rightarrow> string) \<Rightarrow> pyval \<Rightarrow> string \<Rightarrow> pyerr + string" where
  "turn_lines rp turn history_text =
     ebind (py_iter turn) (\<lambda>messages. efold (message_line rp) messages history_text)"

definition sessions_block :: "(pyval \<Rightarrow> string) \<Rightarrow> pyval \<Rightarrow> pyerr + string" where
  "sessions_block rp recent_turns =
     ebind (py_len recent_turns) (\<lambda>n.
     ebind (py_iter recent_turns) (\<lambda>turns.
     ebind (efold (turn_lines rp) turns sessions_header) (\<lambda>history_text.
     Inr (history_text @ sessions_footer))))"

text \<open>
  The branch taken when there is no in-session history and the user is known. Every
  exception ends in the handler's notice, so the result is always a text. The text the
  semantic search built is \<open>found\<close>; the \<^verbatim>\<open>if recent_turns: ... else: ...\<close> that follows
  assigns \<^verbatim>\<open>history_text\<close> again in both branches.
\<close>

definition ltm_session_id :: "pyval \<Rightarrow> pyval \<Rightarrow> pyerr + pyval" where
  "ltm_session_id context user_id_for_ltm =
     ebind (dict_get context ''runtime_session_id'' PNone) (\<lambda>s.
     ebind (if truthy s then Inr s else dict_get context ''session_id'' PNone)
       (\<lambda>runtime_session_id.
     Inr (if truthy runtime_session_id then runtime_session_id else user_id_for_ltm)))"

definition ltm_history :: "env \<Rightarrow> pyval \<Rightarrow> pyval \<Rightarrow> pyval \<Rightarrow> string \<times> event list" where
  "ltm_history env question context user_id_for_ltm =
     (case MemoryClient env of
        Some e \<Rightarrow> (ltm_failed (repr env) user_id_for_ltm, [MemoryClientInit])
      | None \<Rightarrow>
          (case ltm_session_id context user_id_for_ltm of
             Inl e \<Rightarrow> (ltm_failed (repr env) user_id_for_ltm, [MemoryClientInit])
           | Inr session_id \<Rightarrow>
               (let turns_call = GetLastKTurns (MEMORY_ID env) user_id_for_ltm session_id 5
                in case get_last_k_turns env (MEMORY_ID env) user_id_for_ltm session_id 5 of
                     Inl e \<Rightarrow>
                       (ltm_failed (repr env) user_id_for_ltm, [MemoryClientInit, turns_call])
                   | Inr recent_turns \<Rightarrow>
                       (let namespace = ''support/user/'' @ py_str (repr env) user_id_for_ltm
                                          @ ''/preferences'';
                            (found, search_calls) =
                              (if \<not> truthy recent_turns then
                                 (semantic_block (repr env)
                                    (retrieve_memories env (MEMORY_ID env) namespace question 3),
                                  [RetrieveMemories (MEMORY_ID env) namespace question 3])
                               else ([], []));
                            memory_calls = [MemoryClientInit, turns_call] @ search_calls
                        in if truthy recent_turns then
                             (case sessions_block (repr env) recent_turns of
                                Inl e \<Rightarrow> (ltm_failed (repr env) user_id_for_ltm, memory_calls)
                              | Inr history_text \<Rightarrow> (history_text, memory_calls))
                           else (no_ltm_found (repr env) user_id_for_ltm, memory_calls)))))"

text \<open>\<^verbatim>\<open>history_text\<close> of the branch \<^verbatim>\<open>if context\<close>, with the calls made for it.\<close>

definition history_text :: "env \<Rightarrow> pyval \<Rightarrow> pyval \<Rightarrow> pyval \<Rightarrow> (pyerr + string) \<times> event list" where
  "history_text env question context user_id_for_ltm =
     (case dict_get context ''conversation_history'' (PList []) of
        Inl e \<Rightarrow> (Inl e, [])
      | Inr conversation_history \<Rightarrow>
          if \<not> truthy conversation_history \<and> truthy user_id_for_ltm
             \<and> user_id_for_ltm \<noteq> PStr ''anonymous''
          then (let (text, calls) = ltm_history env question context user_id_for_ltm
                in (Inr text, calls))
          else if truthy conversation_history
          then (previous_conversation (repr env) conversation_history, [])
          else (Inr no_previous_conversation, []))"

definition ltm_note :: "(pyval \<Rightarrow> string) \<Rightarrow> pyval \<Rightarrow> string" where
  "ltm_note rp user_id_for_ltm =
     (if truthy user_id_for_ltm \<and> user_id_for_ltm \<noteq> PStr ''anonymous'' then
        nl @ warning_sign @ '' CRITICAL FOR LTM: User ID is '' @ sq @ py_str rp user_id_for_ltm @ sq
        @ ''. Long-Term Memory (LTM) has been retrieved from previous sessions (if available) and is shown above. Use this information to answer questions about the user''
        @ sq @ ''s name, preferences, or past interactions.'' @ nl
      else [])"

text \<open>The f-string \<^verbatim>\<open>user_info\<close> around a history text; its fields are printed in order.\<close>

definition user_info :: "(pyval \<Rightarrow> string) \<Rightarrow> pyval \<Rightarrow> pyval \<Rightarrow> (string \<times> pyval) list
    \<Rightarrow> string \<Rightarrow> pyerr + string" where
  "user_info rp question context uc history =
     (let user_id_for_ltm = lookup uc ''user_id'' PNone;
          permissions = lookup uc ''permissions'' PNone
      in ebind (py_title (lookup uc ''department'' PNone)) (\<lambda>department.
         ebind (if truthy permissions then py_join '', '' permissions else Inr ''Basic'')
           (\<lambda>perms.
         ebind (dict_get context ''session_id'' (PStr ''Not provided - new session''))
           (\<lambda>session_id.
         Inr (nl @ ''User Context:'' @ nl
              @ ''- Username: '' @ py_str rp (lookup uc ''username'' PNone) @ nl
              @ ''- Department: '' @ department @ nl
              @ ''- Permissions: '' @ perms @ nl
              @ ''- Authenticated: '' @ py_str rp (lookup uc ''authenticated'' PNone) @ nl
              @ ''- User ID: '' @ py_str rp user_id_for_ltm @ '' (for LTM)'' @ nl
              @ ltm_note rp user_id_for_ltm @ nl
              @ history @ nl
              @ ''Session ID: '' @ py_str rp session_id @ nl
              @ ''Customer Request: '' @ py_str rp question @ nl)))))"

text \<open>The prompt handed to the decision step, with the Memory Store calls made for it.\<close>

definition prompt :: "env \<Rightarrow> pyval \<Rightarrow> pyval \<Rightarrow> (string \<times> pyval) list
    \<Rightarrow> (pyerr + string) \<times> event list" where
  "prompt env question context uc =
     (if truthy context then
        (case history_text env question context (lookup uc ''user_id'' PNone) of
           (Inl e, calls) \<Rightarrow> (Inl e, calls)
         | (Inr history, calls) \<Rightarrow> (user_info (repr env) question context uc history, calls))
      else (Inr (''Customer Request: '' @ py_str (repr env) question), []))"

section \<open>Trace reconstruction (\<^verbatim>\<open>process_request\<close>, after the decision step)\<close>

text \<open>\<^verbatim>\<open>hasattr(v, a)\<close> and \<^verbatim>\<open>v.a\<close>: \<open>None\<close> when the attribute is missing.\<close>

fun attr :: "pyval \<Rightarrow> string \<Rightarrow> pyval option" where
  "attr (PObj attrs) a = map_of attrs a"
| "attr v a = None"

text \<open>\<^verbatim>\<open>xs.extend(v)\<close>.\<close>

definition extend :: "pyval \<Rightarrow> pyval \<Rightarrow> pyerr + pyval" where
  "extend tool_calls v =
     (case tool_calls of
        PList xs \<Rightarrow> ebind (py_iter v) (\<lambda>ys. Inr (PList (xs @ ys)))
      | _ \<Rightarrow> Inl (no_attribute tool_calls ''extend''))"

text \<open>\<^verbatim>\<open>v or []\<close> followed by the \<^verbatim>\<open>len\<close> that the debug line takes of it.\<close>

definition or_empty :: "pyval \<Rightarrow> pyerr + pyval" where
  "or_empty v =
     (let tool_calls = (if truthy v then v else PList [])
      in ebind (py_len tool_calls) (\<lambda>n. Inr tool_calls))"

text \<open>One pass of the loop over a \<^verbatim>\<open>response.message\<close> that is a list.\<close>

definition item_calls :: "pyval \<Rightarrow> pyval \<Rightarrow> pyerr + pyval" where
  "item_calls item tool_calls =
     (case item of
        PDict kvs \<Rightarrow>
          (case map_of kvs ''tool_calls'' of
             Some v \<Rightarrow> extend tool_calls v
           | None \<Rightarrow> Inr tool_calls)
      | _ \<Rightarrow> Inr tool_calls)"

text \<open>The call list found in the result object.\<close>

definition response_tool_calls :: "pyval \<Rightarrow> pyerr + pyval" where
  "response_tool_calls response =
     (case attr response ''tool_calls'' of
        Some v \<Rightarrow> or_empty v
      | None \<Rightarrow>
          (case attr response ''message'' of
             Some (PDict m) \<Rightarrow>
               (case map_of m ''tool_calls'' of
                  Some v \<Rightarrow> or_empty v
                | None \<Rightarrow> Inr (PList []))
           | Some (PList items) \<Rightarrow> efold item_calls items (PList [])
           | _ \<Rightarrow> Inr (PList [])))"

text \<open>One pass of the loop over the last five entries of the agent's conversation.\<close>

definition conversation_calls :: "pyval \<Rightarrow> pyval \<Rightarrow> pyerr + pyval" where
  "conversation_calls msg tool_calls =
     (case attr msg ''tool_calls'' of
        Some v \<Rightarrow> if truthy v then extend tool_calls v else Inr tool_calls
      | None \<Rightarrow>
          (case msg of
             PDict kvs \<Rightarrow>
               (case map_of kvs ''tool_calls'' of
                  Some v \<Rightarrow> extend tool_calls v
                | None \<Rightarrow> Inr tool_calls)
           | _ \<Rightarrow> Inr tool_calls))"

text \<open>The call list after the look at the conversation; its \<^verbatim>\<open>try\<close> absorbs every exception.\<close>

definition with_conversation :: "env \<Rightarrow> pyval \<Rightarrow> pyval" where
  "with_conversation env tool_calls =
     (case conversation env of
        None \<Rightarrow> tool_calls
      | Some c \<Rightarrow>
          if truthy c then
            (case py_iter c of
               Inl e \<Rightarrow> tool_calls
             | Inr msgs \<Rightarrow> fst (efold_try conversation_calls (last_n 5 msgs) tool_calls))
          else tool_calls)"

definition agent_url_to_name :: "(string \<times> string) list" where
  "agent_url_to_name =
     [(''http://127.0.0.1:9001'', ''SentimentAgent''),
      (''http://127.0.0.1:9002'', ''KnowledgeAgent''),
      (''http://127.0.0.1:9003'', ''TicketAgent''),
      (''http://127.0.0.1:9005'', ''ResolutionAgent''),
      (''http://127.0.0.1:9006'', ''EscalationAgent'')]"

text \<open>\<^verbatim>\<open>agent_url_to_name.get(agent_url)\<close>: a list or a dictionary cannot be hashed.\<close>

definition url_name :: "pyval \<Rightarrow> pyerr + string option" where
  "url_name agent_url =
     (case agent_url of
        PStr u \<Rightarrow> Inr (map_of agent_url_to_name u)
      | PList xs \<Rightarrow> Inl (TypeError (''unhashable type: '' @ sq @ ''list'' @ sq))
      | PDict kvs \<Rightarrow> Inl (TypeError (''unhashable type: '' @ sq @ ''dict'' @ sq))
      | _ \<Rightarrow> Inr None)"

text \<open>The three lists \<^verbatim>\<open>process_request\<close> fills while it classifies the calls.\<close>

record tracking =
  specialized_agents :: "string list"
  mcp_tools_used :: "string list"
  response_trace :: "pyval list"

definition routed_entry :: "string \<Rightarrow> pyval \<Rightarrow> pyval" where
  "routed_entry agent_name agent_url =
     PDict [(''type'', PStr ''agent''), (''name'', PStr agent_name),
            (''action'', PStr ''routed_to''), (''url'', agent_url)]"

definition tool_entry :: "string \<Rightarrow> pyval" where
  "tool_entry tool_name =
     PDict [(''type'', PStr ''tool''), (''tool'', PStr tool_name),
            (''action'', PStr ''called_mcp_tool'')]"

definition detected_entry :: "string \<Rightarrow> pyval" where
  "detected_entry agent_name =
     PDict [(''type'', PStr ''agent''), (''name'', PStr agent_name),
            (''action'', PStr ''detected_in_response''), (''method'', PStr ''message_parsing'')]"

text \<open>Name and arguments of a call record.\<close>

definition call_name_args :: "pyval \<Rightarrow> pyerr + pyval \<times> pyval" where
  "call_name_args tool_call =
     (case tool_call of
        PDict kvs \<Rightarrow>
          ebind (let n = lookup kvs ''name'' (PStr []) in
                 if truthy n then Inr n
                 else dict_get (lookup kvs ''function'' (PDict [])) ''name'' (PStr []))
            (\<lambda>tool_name.
          ebind (let a = lookup kvs ''arguments'' (PDict []) in
                 if truthy a then Inr a
                 else dict_get (lookup kvs ''function'' (PDict [])) ''arguments'' (PDict []))
            (\<lambda>tool_args. Inr (tool_name, tool_args)))
      | _ \<Rightarrow>
          (case attr tool_call ''name'' of
             Some n \<Rightarrow>
               Inr (n, case attr tool_call ''arguments'' of Some a \<Rightarrow> a | None \<Rightarrow> PDict [])
           | None \<Rightarrow> Inr (PStr [], PDict [])))"

definition is_a2a :: "string \<Rightarrow> bool" where
  "is_a2a lowered \<longleftrightarrow>
     contains ''a2a'' lowered \<or> contains ''send_message'' lowered
     \<or> contains ''discover_agent'' lowered"

definition is_mcp :: "string \<Rightarrow> bool" where
  "is_mcp tool_name \<longleftrightarrow> contains ''target'' (lower tool_name) \<and> contains ''___'' tool_name"

text \<open>Arguments that arrive as text go through \<^verbatim>\<open>json.loads\<close>; its failure is absorbed.\<close>

definition loaded_args :: "env \<Rightarrow> pyval \<Rightarrow> pyval" where
  "loaded_args env tool_args =
     (case tool_args of
        PStr s \<Rightarrow> (case json_loads env s of Inl e \<Rightarrow> tool_args | Inr v \<Rightarrow> v)
      | _ \<Rightarrow> tool_args)"

text \<open>\<^verbatim>\<open>tool_args.get('target_agent_url') or tool_args.get('url', '')\<close>.\<close>

definition agent_url_of :: "pyval \<Rightarrow> pyerr + pyval" where
  "agent_url_of tool_args =
     ebind (dict_get tool_args ''target_agent_url'' PNone) (\<lambda>u.
       if truthy u then Inr u else dict_get tool_args ''url'' (PStr []))"

text \<open>The branch of an agent-routing call, from the name's test on.\<close>

definition record_agent :: "env \<Rightarrow> pyval \<Rightarrow> tracking \<Rightarrow> pyerr + tracking" where
  "record_agent env tool_args st =
     ebind (agent_url_of (loaded_args env tool_args)) (\<lambda>agent_url.
       if truthy agent_url then
         ebind (url_name agent_url) (\<lambda>found.
           case found of
             None \<Rightarrow> Inr st
           | Some agent_name \<Rightarrow>
               if agent_name \<notin> set (specialized_agents st) then
                 Inr (st\<lparr>specialized_agents := specialized_agents st @ [agent_name],
                         response_trace := response_trace st
                           @ [routed_entry agent_name agent_url]\<rparr>)
               else Inr st)
       else Inr st)"

definition record_tool :: "string \<Rightarrow> tracking \<Rightarrow> tracking" where
  "record_tool tool_name st =
     (if tool_name \<notin> set (mcp_tools_used st) then
        st\<lparr>mcp_tools_used := mcp_tools_used st @ [tool_name],
           response_trace := response_trace st @ [tool_entry tool_name]\<rparr>
      else st)"

text \<open>One pass of \<^verbatim>\<open>for tool_call in tool_calls\<close>.\<close>

definition record_call :: "env \<Rightarrow> pyval \<Rightarrow> tracking \<Rightarrow> pyerr + tracking" where
  "record_call env tool_call st =
     ebind (call_name_args tool_call) (\<lambda>(tool_name, tool_args).
       case tool_name of
         PStr name \<Rightarrow>
           if is_a2a (lower name) then record_agent env tool_args st
           else if is_mcp name then Inr (record_tool name st)
           else Inr st
       | _ \<Rightarrow> Inl (no_attribute tool_name ''lower''))"

subsection \<open>The message\<close>

text \<open>One pass of the loop over a \<^verbatim>\<open>response.message\<close> that is a list.\<close>

definition message_part :: "(pyval \<Rightarrow> string) \<Rightarrow> pyval \<Rightarrow> pyval list \<Rightarrow> pyerr + pyval list" where
  "message_part rp item parts =
     (case item of
        PDict kvs \<Rightarrow>
          (let t = lookup kvs ''text'' PNone; c = lookup kvs ''content'' PNone
           in Inr (parts @ [if truthy t then t else if truthy c then c
                            else PStr (py_str rp item)]))
      | _ \<Rightarrow> Inr (parts @ [PStr (py_str rp item)]))"

definition raw_message :: "(pyval \<Rightarrow> string) \<Rightarrow> pyval \<Rightarrow> pyerr + pyval" where
  "raw_message rp response =
     (case attr response ''message'' of
        Some (PDict m) \<Rightarrow> Inr (lookup m ''content'' (PStr []))
      | Some (PList items) \<Rightarrow>
          ebind (efold (message_part rp) items []) (\<lambda>parts.
          ebind (py_join '' '' (PList parts)) (\<lambda>s. Inr (PStr s)))
      | Some v \<Rightarrow> Inr (PStr (py_str rp v))
      | None \<Rightarrow>
          (case attr response ''content'' of
             Some c \<Rightarrow> Inr (PStr (py_str rp c))
           | None \<Rightarrow> Inr (PStr (py_str rp response))))"

text \<open>
  The clean-up of a message that prints like a list: the parser's failure is absorbed,
  and the unwrapped field may be a value that is not text.
\<close>

definition unwrap :: "env \<Rightarrow> string \<Rightarrow> pyval" where
  "unwrap env s =
     (if starts_with ''['' s \<and> ends_with '']'' s then
        (case literal_eval env s of
           Inr (PList (PDict d # rest)) \<Rightarrow>
             (let t = lookup d ''text'' PNone; c = lookup d ''content'' PNone
              in if truthy t then t else if truthy c then c else PStr s)
         | _ \<Rightarrow> PStr s)
      else PStr s)"

definition message_content :: "env \<Rightarrow> pyval \<Rightarrow> pyerr + pyval" where
  "message_content env response =
     ebind (raw_message (repr env) response) (\<lambda>m. Inr (unwrap env (py_str (repr env) m)))"

subsection \<open>The scan of the message for agent names\<close>

definition agent_keywords :: "(string \<times> string) list" where
  "agent_keywords =
     [(''knowledgeagent'', ''KnowledgeAgent''),
      (''sentimentagent'', ''SentimentAgent''),
      (''ticketagent'', ''TicketAgent''),
      (''resolutionagent'', ''ResolutionAgent''),
      (''escalationagent'', ''EscalationAgent'')]"

definition detect :: "string \<Rightarrow> string \<times> string \<Rightarrow> tracking \<Rightarrow> tracking" where
  "detect message_lower kw st =
     (if contains (fst kw) message_lower \<and> snd kw \<notin> set (specialized_agents st) then
        st\<lparr>specialized_agents := specialized_agents st @ [snd kw],
           response_trace := response_trace st @ [detected_entry (snd kw)]\<rparr>
      else st)"

definition detect_agents :: "pyval \<Rightarrow> tracking \<Rightarrow> pyerr + tracking" where
  "detect_agents message st =
     (if specialized_agents st = [] then
        (case message of
           PStr s \<Rightarrow> Inr (fold (detect (lower s)) agent_keywords st)
         | _ \<Rightarrow> Inl (no_attribute message ''lower''))
      else Inr st)"

text \<open>Everything between the decision step's return and the response dictionary.\<close>

definition no_tracking :: tracking where
  "no_tracking = \<lparr>specialized_agents = [], mcp_tools_used = [], response_trace = []\<rparr>"

definition call_records :: "env \<Rightarrow> pyval \<Rightarrow> pyerr + pyval list" where
  "call_records env response =
     ebind (response_tool_calls response) (\<lambda>tool_calls.
       py_iter (with_conversation env tool_calls))"

definition reconstruct :: "env \<Rightarrow> pyval \<Rightarrow> pyerr + pyval \<times> tracking" where
  "reconstruct env response =
     ebind (call_records env response) (\<lambda>tool_calls.
     ebind (efold (record_call env) tool_calls no_tracking) (\<lambda>st.
     ebind (message_content env response) (\<lambda>message.
     ebind (detect_agents message st) (\<lambda>st'. Inr (message, st')))))"

section \<open>Response assembly (\<^verbatim>\<open>process_request\<close>)\<close>

text \<open>\<^verbatim>\<open>d[k] = v\<close>: an existing key keeps its place, a new one goes last.\<close>

definition set_item :: "pyval \<Rightarrow> string \<Rightarrow> pyval \<Rightarrow> pyerr + pyval" where
  "set_item d k v =
     (case d of
        PDict kvs \<Rightarrow> Inr (PDict (AList.update k v kvs))
      | _ \<Rightarrow>
          Inl (TypeError (sq @ type_name d @ sq @ '' object does not support item assignment'')))"

text \<open>The entry of \<^verbatim>\<open>conversation_context\<close> that a trace entry gives, if any.\<close>

definition ui_entry :: "env \<Rightarrow> pyval \<Rightarrow> pyval list" where
  "ui_entry env trace_item =
     (case trace_item of
        PDict kvs \<Rightarrow>
          if lookup kvs ''type'' PNone = PStr ''agent'' then
            [PDict [(''tool_calls'',
                     PList [PDict [(''name'', PStr ''a2a_send_message''),
                                   (''arguments'',
                                    PDict [(''target_agent_url'', lookup kvs ''url'' (PStr [])),
                                           (''agent_name'', lookup kvs ''name'' PNone)])]]),
                    (''timestamp'', PStr (now env))]]
          else if lookup kvs ''type'' PNone = PStr ''tool'' then
            [PDict [(''tool_calls'',
                     PList [PDict [(''name'', lookup kvs ''tool'' PNone),
                                   (''function'', lookup kvs ''function'' (PStr []))]]),
                    (''timestamp'', PStr (now env))]]
          else []
      | _ \<Rightarrow> [])"

definition conversation_context :: "env \<Rightarrow> pyval list \<Rightarrow> pyval" where
  "conversation_context env trace = PList (concat (map (ui_entry env) trace))"

text \<open>
  \<^verbatim>\<open>response_dict\<close>. Its \<^verbatim>\<open>context\<close> is the caller's dictionary itself, so the
  assignment of \<^verbatim>\<open>conversation_context\<close> changes the caller's dictionary too: the second
  component is the caller's context afterwards.
\<close>

definition response_dict :: "env \<Rightarrow> pyval \<Rightarrow> (string \<times> pyval) list \<Rightarrow> pyval \<Rightarrow> tracking
    \<Rightarrow> pyerr + (string \<times> pyval) list \<times> pyval" where
  "response_dict env context uc message st =
     ebind (if truthy context
            then set_item context ''conversation_context''
                   (conversation_context env (response_trace st))
            else Inr context) (\<lambda>context'.
     Inr ([(''message'', message),
           (''status'', PStr ''processed''),
           (''timestamp'', PStr (now env)),
           (''agent'', PStr ''SupervisorAgent''),
           (''model'', PStr (BEDROCK_MODEL_ID env)),
           (''context'', if truthy context then context' else PDict []),
           (''authenticated'', lookup uc ''authenticated'' PNone),
           (''specialized_agents'', PList (map PStr (specialized_agents st))),
           (''mcp_tools_used'', PList (map PStr (mcp_tools_used st))),
           (''response_trace'', PList (response_trace st))],
          context'))"

text \<open>The envelope of the handler of \<^verbatim>\<open>process_request\<close>.\<close>

definition failure :: "env \<Rightarrow> pyval \<Rightarrow> pyerr \<Rightarrow> (string \<times> pyval) list" where
  "failure env context e =
     [(''error'', PStr (''Failed to process request: '' @ err_str e)),
      (''status'', PStr ''error''),
      (''timestamp'', PStr (now env)),
      (''agent'', PStr ''SupervisorAgent''),
      (''authenticated'',
         (case context of
            PDict kvs \<Rightarrow> if kvs \<noteq> [] then lookup kvs ''authenticated'' (PBool False)
                         else PBool False
          | _ \<Rightarrow> PBool False)),
      (''context'', if truthy context then context else PDict [])]"

record outcome =
  reply :: "(string \<times> pyval) list"
  context_out :: pyval
  calls :: "event list"

definition process_request :: "env \<Rightarrow> pyval \<Rightarrow> pyval \<Rightarrow> outcome" where
  "process_request env question context =
     (case user_context context of
        Inl e \<Rightarrow> \<lparr>reply = failure env context e, context_out = context, calls = []\<rparr>
      | Inr uc \<Rightarrow>
          (case prompt env question context uc of
             (Inl e, memory_calls) \<Rightarrow>
               \<lparr>reply = failure env context e, context_out = context, calls = memory_calls\<rparr>
           | (Inr text, memory_calls) \<Rightarrow>
               (case ebind (invoke_async env text) (\<lambda>response.
                     ebind (reconstruct env response) (\<lambda>(message, st).
                     response_dict env context uc message st)) of
                  Inl e \<Rightarrow>
                    \<lparr>reply = failure env context e, context_out = context,
                     calls = memory_calls @ [InvokeAgent text]\<rparr>
                | Inr (response, context') \<Rightarrow>
                    \<lparr>reply = response, context_out = context',
                     calls = memory_calls @ [InvokeAgent text]\<rparr>)))"

section \<open>The entry point (\<^verbatim>\<open>send_message\<close>)\<close>

text \<open>
  What arrives: a value, or an object without \<^verbatim>\<open>__dict__\<close> whose \<^verbatim>\<open>dict()\<close> method
  returns or raises. An object with attributes is replaced by its \<^verbatim>\<open>__dict__\<close>.
\<close>

datatype inbound = Value pyval | DictMethod "pyerr + pyval"

definition invalid_request :: "(string \<times> pyval) list" where
  "invalid_request = [(''error'', PStr ''Invalid request format. Request must be a dictionary.'')]"

definition no_question :: "(string \<times> pyval) list" where
  "no_question =
     [(''error'', PStr (''No question provided. Request must contain '' @ sq @ ''input'' @ sq
                        @ '', '' @ sq @ ''prompt'' @ sq @ '', or '' @ sq @ ''question'' @ sq
                        @ '' field.''))]"

text \<open>The envelope of the handler of \<^verbatim>\<open>send_message\<close>.\<close>

definition crashed :: "pyerr \<Rightarrow> (string \<times> pyval) list" where
  "crashed e =
     [(''error'', PStr (''Failed to process request: '' @ err_str e)), (''status'', PStr ''error'')]"

definition question_of :: "(string \<times> pyval) list \<Rightarrow> pyval" where
  "question_of request =
     (let i = lookup request ''input'' PNone; p = lookup request ''prompt'' PNone
      in if truthy i then i else if truthy p then p else lookup request ''question'' PNone)"

definition context_of :: "(string \<times> pyval) list \<Rightarrow> pyval" where
  "context_of request =
     (let c = lookup request ''context'' (PDict []) in if truthy c then c else PDict [])"

definition runtime_session_id :: "(string \<times> pyval) list \<Rightarrow> pyval \<Rightarrow> pyerr + pyval" where
  "runtime_session_id request context =
     (let s = lookup request ''session_id'' PNone
      in if truthy s then Inr s
         else ebind (dict_get context ''runtimeSessionId'' PNone) (\<lambda>r.
                if truthy r then Inr r else dict_get context ''runtime_session_id'' PNone))"

definition user_id_for_ltm :: "(string \<times> pyval) list \<Rightarrow> pyval \<Rightarrow> pyerr + pyval" where
  "user_id_for_ltm request context =
     ebind (dict_get context ''user_id'' PNone) (\<lambda>c.
       if truthy c then Inr c
       else (let u = lookup request ''user_id'' PNone
             in Inr (if truthy u then u else PStr ''anonymous'')))"

text \<open>The \<^verbatim>\<open>user_context\<close> dictionary of \<^verbatim>\<open>send_message\<close>.\<close>

definition caller_context :: "pyval \<Rightarrow> pyval \<Rightarrow> pyval \<Rightarrow> pyerr + (string \<times> pyval) list" where
  "caller_context context user_id session =
     ebind (dict_get context ''username'' PNone) (\<lambda>username.
     ebind (dict_get context ''customer_tier'' (PStr ''standard'')) (\<lambda>customer_tier.
     ebind (dict_get context ''department'' (PStr ''general'')) (\<lambda>department.
     ebind (dict_get context ''permissions'' (PList [])) (\<lambda>permissions.
     ebind (dict_get context ''authenticated'' (PBool False)) (\<lambda>authenticated.
     Inr [(''user_id'', user_id), (''username'', username), (''customer_tier'', customer_tier),
          (''department'', department), (''permissions'', permissions),
          (''authenticated'', authenticated), (''runtime_session_id'', session)])))))"

text \<open>\<^verbatim>\<open>{**d, **extra}\<close>.\<close>

definition merged :: "(string \<times> pyval) list \<Rightarrow> (string \<times> pyval) list \<Rightarrow> (string \<times> pyval) list" where
  "merged d extra = fold (\<lambda>kv. AList.update (fst kv) (snd kv)) extra d"

definition enhanced_context :: "pyval \<Rightarrow> (string \<times> pyval) list \<Rightarrow> pyval \<Rightarrow> pyerr + pyval" where
  "enhanced_context context uc session =
     (case context of
        PDict c \<Rightarrow>
          Inr (PDict (merged c
                 (uc @ [(''memory_enabled'', PBool True),
                        (''conversation_context'', lookup c ''conversation_history'' (PList [])),
                        (''session_id'', session)])))
      | _ \<Rightarrow> Inl (TypeError (sq @ type_name context @ sq @ '' object is not a mapping'')))"

text \<open>What \<^verbatim>\<open>send_message\<close> has in hand when it calls \<^verbatim>\<open>process_request\<close>.\<close>

record prepared =
  question :: pyval
  enhanced :: pyval
  caller :: "(string \<times> pyval) list"
  session :: pyval
  include_details :: pyval

text \<open>
  From the extraction of the question to the call of \<^verbatim>\<open>process_request\<close>: \<open>Inl\<close> is an
  exception, \<open>Inr None\<close> the early return for a missing question.
\<close>

definition prepare :: "(string \<times> pyval) list \<Rightarrow> pyerr + prepared option" where
  "prepare request =
     (let q = question_of request; context = context_of request
      in if \<not> truthy q then Inr None
         else
           ebind (runtime_session_id request context) (\<lambda>sid.
           ebind (user_id_for_ltm request context) (\<lambda>user_id.
           ebind (caller_context context user_id sid) (\<lambda>uc.
           ebind (enhanced_context context uc sid) (\<lambda>ec.
           ebind (dict_get context ''conversation_history'' (PList [])) (\<lambda>conversation_history.
           ebind (if truthy sid \<and> truthy conversation_history
                  then py_len conversation_history else Inr 0) (\<lambda>n.
           Inr (Some \<lparr>question = q, enhanced = ec, caller = uc, session = sid,
                      include_details = lookup request ''include_details'' (PBool False)\<rparr>))))))))"

definition step :: "string \<Rightarrow> string \<Rightarrow> pyval" where
  "step name description =
     PDict [(''step'', PStr name), (''description'', PStr description),
            (''status'', PStr ''completed'')]"

text \<open>The two fields added for an authenticated caller who asked for details.\<close>

definition with_details :: "(pyval \<Rightarrow> string) \<Rightarrow> prepared \<Rightarrow> (string \<times> pyval) list
    \<Rightarrow> pyerr + (string \<times> pyval) list" where
  "with_details rp p response =
     (if truthy (include_details p) \<and> truthy (lookup (caller p) ''authenticated'' PNone) then
        (let username = py_str rp (lookup (caller p) ''username'' PNone);
             department = py_str rp (lookup (caller p) ''department'' PNone)
         in ebind (py_len (lookup (caller p) ''permissions'' (PList []))) (\<lambda>n.
            Inr (AList.update ''processing_steps''
                   (PList
                      [step ''Authentication Verification'' (''Verified user: '' @ username),
                       step ''Memory Context Loading''
                         ''Loading conversation history and user preferences from memory'',
                       step ''Request Classification''
                         (''Classified as '' @ department @ '' department request''),
                       step ''Permission Check'' (''User has '' @ dec n @ '' permissions''),
                       step ''Response Generation''
                         (''Generated response for '' @ username @ '' with memory context''),
                       step ''Memory Storage''
                         ''Storing conversation context and user preferences for future interactions''])
                   (AList.update ''auth_info''
                      (PDict [(''department'', lookup (caller p) ''department'' PNone),
                              (''permissions'', lookup (caller p) ''permissions'' PNone),
                              (''username'', lookup (caller p) ''username'' PNone)])
                      response))))
      else Inr response)"

definition with_memory_info :: "prepared \<Rightarrow> pyval \<Rightarrow> (string \<times> pyval) list
    \<Rightarrow> pyerr + (string \<times> pyval) list" where
  "with_memory_info p context' response =
     ebind (dict_get context' ''conversation_context'' (PList [])) (\<lambda>cc.
     ebind (py_len cc) (\<lambda>n.
     Inr (AList.update ''memory_info''
            (PDict [(''memory_enabled'', PBool True),
                    (''conversation_length'', PInt (int n)),
                    (''user_context_stored'', lookup (caller p) ''authenticated'' (PBool False))])
            response)))"

text \<open>
  The hosting \<^verbatim>\<open>app\<close> as \<^verbatim>\<open>send_message\<close> looks at it: the outcome of calling its
  \<^verbatim>\<open>get_runtime_session_id\<close>, and its attribute \<^verbatim>\<open>runtime_session_id\<close>, each
  \<open>None\<close> when the \<^verbatim>\<open>app\<close> has no such attribute.
\<close>

record hosting_app =
  get_runtime_session_id :: "(pyerr + pyval) option"
  runtime_session_id_attr :: "pyval option"

text \<open>
  Modelled from the spec: the object \<^verbatim>\<open>app\<close> is an instance of the runtime library's
  \<^verbatim>\<open>BedrockAgentCoreApp\<close>, whose class is not among the sources of this repository.
  The spec (4.5) says that no session key can be recovered after the fact, and the
  comment above the look-up in \<^verbatim>\<open>send_message\<close> says that the id the runtime generates
  is not accessible in the entry point: the \<^verbatim>\<open>app\<close> has neither attribute.
\<close>

definition app :: hosting_app where
  "app = \<lparr>get_runtime_session_id = None, runtime_session_id_attr = None\<rparr>"

text \<open>
  The session id after the look at the hosting \<^verbatim>\<open>app\<close>, taken only when the request
  carried none. The request is a dictionary by now and has no attribute
  \<^verbatim>\<open>runtimeSessionId\<close>.
\<close>

definition recovered_session :: "pyval \<Rightarrow> pyval" where
  "recovered_session sid =
     (if \<not> truthy sid then
        (case get_runtime_session_id app of
           Some (Inr v) \<Rightarrow> v
         | Some (Inl e) \<Rightarrow> sid
         | None \<Rightarrow> (case runtime_session_id_attr app of Some v \<Rightarrow> v | None \<Rightarrow> sid))
      else sid)"

definition managed_note :: string where
  "managed_note =
     ''Session managed by AgentCore Runtime. Use same session ID for follow-up interactions.''"

definition not_accessible_note :: string where
  "not_accessible_note =
     ''AgentCore Runtime auto-generated a session ID internally, but it'' @ sq
     @ ''s not accessible in the entrypoint. To maintain session continuity, explicitly provide a session_id in the request body or use --session-id flag with agentcore invoke.''"

definition with_session :: "pyval \<Rightarrow> (string \<times> pyval) list \<Rightarrow> pyerr + (string \<times> pyval) list" where
  "with_session sid response =
     (if truthy sid then
        (let r1 = AList.update ''session_info''
                    (PDict [(''runtime_session_id'', sid), (''note'', PStr managed_note)]) response;
             r2 = AList.update ''session_id'' sid r1;
             r3 = (if map_of r2 ''context'' = None then AList.update ''context'' (PDict []) r2
                   else r2)
         in ebind (set_item (lookup r3 ''context'' PNone) ''runtime_session_id'' sid) (\<lambda>c1.
            ebind (set_item c1 ''session_id'' sid) (\<lambda>c2.
            Inr (AList.update ''context'' c2 r3))))
      else
        Inr (AList.update ''session_info''
               (PDict [(''runtime_session_id'', PNone), (''note'', PStr not_accessible_note)])
               response))"

text \<open>From the return of \<^verbatim>\<open>process_request\<close> to the return of \<^verbatim>\<open>send_message\<close>.\<close>

definition finish :: "env \<Rightarrow> prepared \<Rightarrow> outcome \<Rightarrow> pyerr + (string \<times> pyval) list" where
  "finish env p out =
     ebind (with_details (repr env) p (reply out)) (\<lambda>r1.
     ebind (with_memory_info p (context_out out) r1) (\<lambda>r2.
     with_session (recovered_session (session p)) r2))"

text \<open>The request as a dictionary, if it is or becomes one.\<close>

definition as_dict :: "inbound \<Rightarrow> pyerr + (string \<times> pyval) list option" where
  "as_dict request =
     (case request of
        Value (PDict kvs) \<Rightarrow> Inr (Some kvs)
      | Value (PObj attrs) \<Rightarrow> Inr (Some attrs)
      | Value v \<Rightarrow> Inr None
      | DictMethod (Inl e) \<Rightarrow> Inl e
      | DictMethod (Inr (PDict kvs)) \<Rightarrow> Inr (Some kvs)
      | DictMethod (Inr v) \<Rightarrow> Inr None)"

text \<open>The response, and the calls made to the Memory Store and the decision step.\<close>

definition send_message :: "env \<Rightarrow> inbound \<Rightarrow> (string \<times> pyval) list \<times> event list" where
  "send_message env request =
     (case as_dict request of
        Inl e \<Rightarrow> (crashed e, [])
      | Inr None \<Rightarrow> (invalid_request, [])
      | Inr (Some kvs) \<Rightarrow>
          (case prepare kvs of
             Inl e \<Rightarrow> (crashed e, [])
           | Inr None \<Rightarrow> (no_question, [])
           | Inr (Some p) \<Rightarrow>
               (let out = process_request env (question p) (enhanced p)
                in case finish env p out of
                     Inl e \<Rightarrow> (crashed e, calls out)
                   | Inr response \<Rightarrow> (response, calls out))))"

section \<open>Notions used in the properties\<close>

text \<open>The entries of a trace that have a given \<^verbatim>\<open>type\<close>, and a field of an entry.\<close>

definition entries_of_type :: "string \<Rightarrow> pyval list \<Rightarrow> pyval list" where
  "entries_of_type t trace = filter (\<lambda>e. dict_get e ''type'' PNone = Inr (PStr t)) trace"

definition field_of :: "string \<Rightarrow> pyval \<Rightarrow> pyval" where
  "field_of k e = (case dict_get e k PNone of Inr v \<Rightarrow> v | Inl err \<Rightarrow> PNone)"

text \<open>
  What the classification loop keeps true of its three lists: the agent names are the
  names of the agent entries, the tool entries are those of the tool identifiers, in the
  same order, and no name or identifier is listed twice.
\<close>

definition consistent :: "tracking \<Rightarrow> bool" where
  "consistent st \<longleftrightarrow>
     map PStr (specialized_agents st)
       = map (field_of ''name'') (entries_of_type ''agent'' (response_trace st))
     \<and> entries_of_type ''tool'' (response_trace st) = map tool_entry (mcp_tools_used st)
     \<and> distinct (specialized_agents st) \<and> distinct (mcp_tools_used st)"

text \<open>
  The agent a call record routes to: the name the loop body records for it when nothing
  has been recorded yet. The tool identifier of a call record: its name, when that is
  text which is no agent-routing name and has the form of a tool name.
\<close>

definition routed_agent :: "env \<Rightarrow> pyval \<Rightarrow> string option" where
  "routed_agent env tool_call =
     (case record_call env tool_call no_tracking of
        Inr st \<Rightarrow> (case specialized_agents st of a # as \<Rightarrow> Some a | [] \<Rightarrow> None)
      | Inl e \<Rightarrow> None)"

definition tool_identifier :: "pyval \<Rightarrow> string option" where
  "tool_identifier tool_call =
     (case call_name_args tool_call of
        Inr (PStr name, args) \<Rightarrow>
          if \<not> is_a2a (lower name) \<and> is_mcp name then Some name else None
      | _ \<Rightarrow> None)"

text \<open>A list without its repetitions, every element at its first occurrence.\<close>

fun first_seen :: "'a list \<Rightarrow> 'a list" where
  "first_seen [] = []"
| "first_seen (x # xs) = x # first_seen (filter (\<lambda>y. y \<noteq> x) xs)"

text \<open>
  An entry of the turn history as callers build it: a dictionary whose \<^verbatim>\<open>role\<close>, when
  it has one, is text. The role-tagged line of an entry is its role in capitals, a colon
  and its content.
\<close>

definition is_turn :: "pyval \<Rightarrow> bool" where
  "is_turn msg =
     (case msg of
        PDict kvs \<Rightarrow> (case lookup kvs ''role'' (PStr ''unknown'') of PStr r \<Rightarrow> True | _ \<Rightarrow> False)
      | _ \<Rightarrow> False)"

definition role_tagged_line :: "(pyval \<Rightarrow> string) \<Rightarrow> pyval \<Rightarrow> string" where
  "role_tagged_line rp msg =
     (case msg of
        PDict kvs \<Rightarrow>
          upper (case lookup kvs ''role'' (PStr ''unknown'') of PStr r \<Rightarrow> r | _ \<Rightarrow> [])
          @ '': '' @ py_str rp (lookup kvs ''content'' (PStr [])) @ nl
      | _ \<Rightarrow> [])"

text \<open>A call of the log raised an error.\<close>

fun raised :: "env \<Rightarrow> event \<Rightarrow> bool" where
  "raised env MemoryClientInit = (MemoryClient env \<noteq> None)"
| "raised env (GetLastKTurns m a s k) = isl (get_last_k_turns env m a s k)"
| "raised env (RetrieveMemories m n q k) = isl (retrieve_memories env m n q k)"
| "raised env (InvokeAgent t) = isl (invoke_async env t)"

text \<open>
  The keys that \<^verbatim>\<open>send_message\<close> itself writes into the context it echoes; the
  caller's entries under any other key pass through.
\<close>

definition router_keys :: "string set" where
  "router_keys =
     {''user_id'', ''username'', ''customer_tier'', ''department'', ''permissions'',
      ''authenticated'', ''runtime_session_id'', ''memory_enabled'', ''conversation_context'',
      ''session_id''}"

text \<open>
  The first of the three session aliases that holds a non-empty value (the last one when
  none does), read from the request and from its context.
\<close>

definition session_alias :: "(string \<times> pyval) list \<Rightarrow> pyval" where
  "session_alias request =
     (let s = lookup request ''session_id'' PNone;
          a = field_of ''runtimeSessionId'' (context_of request);
          b = field_of ''runtime_session_id'' (context_of request)
      in if truthy s then s else if truthy a then a else b)"

section \<open>Test doubles\<close>

text \<open>
  Collaborators for running the supervisor on concrete requests: a Memory Store that
  finds nothing, a decision step that answers \<open>Hello\<close> and calls nobody, and parsers
  that reject their input.
\<close>

definition stub_env :: env where
  "stub_env =
     \<lparr>MEMORY_ID = ''mem'', BEDROCK_MODEL_ID = ''model'', MemoryClient = None,
      get_last_k_turns = (\<lambda>m a s k. Inr (PList [])),
      retrieve_memories = (\<lambda>m n q k. Inr (PList [])),
      invoke_async = (\<lambda>text. Inr (PObj [(''message'',
                        PDict [(''role'', PStr ''assistant''), (''content'', PStr ''Hello'')])])),
      conversation = None,
      json_loads = (\<lambda>s. Inl (Raised ''not JSON'')),
      literal_eval = (\<lambda>s. Inl (Raised ''not a literal'')),
      repr = (\<lambda>v. ''<value>''),
      now = ''2025-01-01T00:00:00''\<rparr>"

text \<open>
  A decision step whose result lists four calls: a ticket tool, the ticket agent, and
  both once more.
\<close>

definition ticket_call :: pyval where
  "ticket_call =
     PDict [(''name'', PStr ''a2a_send_message''),
            (''arguments'', PDict [(''target_agent_url'', PStr ''http://127.0.0.1:9003''),
                                   (''message_text'', PStr ''Create a ticket'')])]"

definition create_ticket_call :: pyval where
  "create_ticket_call =
     PDict [(''name'', PStr ''dev-cs-ticket-create-ticket-target___create_ticket''),
            (''arguments'', PDict [(''title'', PStr ''Login issues'')])]"

definition routing_result :: pyval where
  "routing_result =
     PObj [(''tool_calls'', PList [create_ticket_call, ticket_call, create_ticket_call, ticket_call]),
           (''message'', PDict [(''role'', PStr ''assistant''), (''content'', PStr ''Done'')])]"

definition routing_env :: env where
  "routing_env = stub_env\<lparr>invoke_async := (\<lambda>t. Inr routing_result)\<rparr>"

text \<open>A turn history of seven entries.\<close>

definition seven_turns :: "pyval list" where
  "seven_turns =
     [PDict [(''role'', PStr ''user''), (''content'', PStr ''m1'')],
      PDict [(''role'', PStr ''assistant''), (''content'', PStr ''m2'')],
      PDict [(''role'', PStr ''user''), (''content'', PStr ''m3'')],
      PDict [(''role'', PStr ''assistant''), (''content'', PStr ''m4'')],
      PDict [(''role'', PStr ''user''), (''content'', PStr ''m5'')],
      PDict [(''role'', PStr ''assistant''), (''content'', PStr ''m6'')],
      PDict [(''role'', PStr ''user''), (''content'', PStr ''m7'')]]"

text \<open>
  A Memory Store whose recent-turn replay times out, and one whose semantic search finds
  a stored preference.
\<close>

definition timeout_env :: env where
  "timeout_env = stub_env\<lparr>get_last_k_turns := (\<lambda>m a s k. Inl (Raised ''Read timed out''))\<rparr>"

definition preferences_env :: env where
  "preferences_env =
     stub_env\<lparr>retrieve_memories := (\<lambda>m n q k.
        Inr (PList [PDict [(''content'', PDict [(''text'', PStr ''Prefers email notifications'')])]]))\<rparr>"

text \<open>A decision step that is down.\<close>

definition down_env :: env where
  "down_env = stub_env\<lparr>invoke_async := (\<lambda>t. Inl (Raised ''model unavailable''))\<rparr>"

section \<open>Properties\<close>

subsection \<open>Basic facts\<close>

lemma ebind_Inr [simp]: "ebind (Inr x) f = f x"
  by (simp add: ebind_def)

lemma ebind_Inl [simp]: "ebind (Inl e) f = Inl e"
  by (simp add: ebind_def)

lemma ebind_eq_Inr: "ebind m f = Inr y \<longleftrightarrow> (\<exists>x. m = Inr x \<and> f x = Inr y)"
  by (cases m) simp_all

lemma map_of_merged: "map_of (merged d extra) = map_of d ++ map_of (rev extra)"
  unfolding merged_def
proof (induction extra arbitrary: d)
  case Nil
  then show ?case by simp
next
  case (Cons kv extra)
  show ?case
    by (simp add: Cons.IH update_conv' map_add_def fun_eq_iff split: option.splits)
qed

subsection \<open>The classification loop\<close>

lemma entries_simps [simp]:
  "entries_of_type t [] = []"
  "entries_of_type t (xs @ ys) = entries_of_type t xs @ entries_of_type t ys"
  "entries_of_type ''agent'' [routed_entry a u] = [routed_entry a u]"
  "entries_of_type ''tool'' [routed_entry a u] = []"
  "entries_of_type ''agent'' [detected_entry a] = [detected_entry a]"
  "entries_of_type ''tool'' [detected_entry a] = []"
  "entries_of_type ''agent'' [tool_entry n] = []"
  "entries_of_type ''tool'' [tool_entry n] = [tool_entry n]"
  by (simp_all add: entries_of_type_def routed_entry_def detected_entry_def tool_entry_def)

lemma field_simps [simp]:
  "field_of ''name'' (routed_entry a u) = PStr a"
  "field_of ''name'' (detected_entry a) = PStr a"
  "field_of ''tool'' (tool_entry n) = PStr n"
  by (simp_all add: field_of_def routed_entry_def detected_entry_def tool_entry_def)

lemma consistent_no_tracking: "consistent no_tracking"
  by (simp add: consistent_def no_tracking_def)

lemma consistent_record_tool: "consistent st \<Longrightarrow> consistent (record_tool name st)"
  by (simp add: consistent_def record_tool_def)

lemma consistent_record_agent:
  "consistent st \<Longrightarrow> record_agent env args st = Inr st' \<Longrightarrow> consistent st'"
  by (auto simp add: consistent_def record_agent_def Let_def ebind_eq_Inr
      split: if_splits option.splits)

lemma record_call_cases:
  assumes "record_call env c st = Inr st'"
  obtains name args where "call_name_args c = Inr (PStr name, args)"
    and "if is_a2a (lower name) then record_agent env args st = Inr st'
         else if is_mcp name then st' = record_tool name st else st' = st"
proof -
  from assms obtain tool_name args where
    na: "call_name_args c = Inr (tool_name, args)"
    and body: "(case tool_name of
         PStr name \<Rightarrow>
           if is_a2a (lower name) then record_agent env args st
           else if is_mcp name then Inr (record_tool name st)
           else Inr st
       | _ \<Rightarrow> Inl (no_attribute tool_name ''lower'')) = Inr st'"
    by (auto simp add: record_call_def ebind_eq_Inr)
  from body obtain name where "tool_name = PStr name"
    by (cases tool_name) simp_all
  with na body that [of name args] show ?thesis
    by (auto split: if_splits)
qed

lemma consistent_record_call:
  assumes "consistent st" and "record_call env c st = Inr st'"
  shows "consistent st'"
  using assms(2)
proof (cases rule: record_call_cases)
  case (1 name args)
  with assms(1) show ?thesis
    by (auto simp add: consistent_record_tool split: if_splits dest: consistent_record_agent)
qed

lemma efold_invariant:
  assumes "\<And>x s s'. P s \<Longrightarrow> f x s = Inr s' \<Longrightarrow> P s'"
  shows "P s \<Longrightarrow> efold f xs s = Inr s' \<Longrightarrow> P s'"
proof (induction xs arbitrary: s)
  case Nil
  then show ?case by simp
next
  case (Cons x xs)
  then show ?case
    by (auto split: sum.splits intro: assms)
qed

lemma consistent_detect: "consistent st \<Longrightarrow> consistent (detect m kw st)"
  by (simp add: consistent_def detect_def)

lemma consistent_fold_detect: "consistent st \<Longrightarrow> consistent (fold (detect m) kws st)"
  by (induction kws arbitrary: st) (simp_all add: consistent_detect)

lemma consistent_detect_agents:
  "consistent st \<Longrightarrow> detect_agents message st = Inr st' \<Longrightarrow> consistent st'"
  by (auto simp add: detect_agents_def consistent_fold_detect split: if_splits pyval.splits)

lemma consistent_reconstruct:
  assumes "reconstruct env response = Inr (message, st)"
  shows "consistent st"
proof -
  from assms obtain records st0 where
    loop: "efold (record_call env) records no_tracking = Inr st0"
    and det: "detect_agents message st0 = Inr st"
    by (auto simp add: reconstruct_def ebind_eq_Inr)
  have "consistent st0"
    using consistent_no_tracking loop
    by (rule efold_invariant [where P = consistent, rotated]) (rule consistent_record_call)
  from this det show ?thesis by (rule consistent_detect_agents)
qed

lemma url_name_Some:
  "url_name v = Inr (Some a) \<Longrightarrow> \<exists>u. v = PStr u \<and> map_of agent_url_to_name u = Some a"
  by (cases v) (simp_all add: url_name_def)

lemma record_agent_from_empty:
  assumes "record_agent env args st = Inr st'"
  shows "(record_agent env args no_tracking = Inr no_tracking \<and> st' = st)
         \<or> (\<exists>a u. map_of agent_url_to_name u = Some a
                \<and> record_agent env args no_tracking
                    = Inr \<lparr>specialized_agents = [a], mcp_tools_used = [],
                           response_trace = [routed_entry a (PStr u)]\<rparr>
                \<and> st' = (if a \<in> set (specialized_agents st) then st
                         else st\<lparr>specialized_agents := specialized_agents st @ [a],
                                 response_trace := response_trace st
                                   @ [routed_entry a (PStr u)]\<rparr>))"
proof -
  from assms obtain url where url: "agent_url_of (loaded_args env args) = Inr url"
    by (auto simp add: record_agent_def ebind_eq_Inr)
  show ?thesis
  proof (cases "truthy url")
    case False
    with url assms show ?thesis
      by (simp add: record_agent_def)
  next
    case True
    with url assms obtain found where found: "url_name url = Inr found"
      by (auto simp add: record_agent_def ebind_eq_Inr)
    show ?thesis
    proof (cases found)
      case None
      with url True found assms show ?thesis
        by (simp add: record_agent_def)
    next
      case (Some a)
      with found obtain u where u: "url = PStr u" "map_of agent_url_to_name u = Some a"
        by (auto dest: url_name_Some)
      from url True found Some assms
      have "st' = (if a \<in> set (specialized_agents st) then st
                   else st\<lparr>specialized_agents := specialized_agents st @ [a],
                           response_trace := response_trace st @ [routed_entry a url]\<rparr>)"
        by (auto simp add: record_agent_def)
      moreover from url True found Some
      have "record_agent env args no_tracking
              = Inr \<lparr>specialized_agents = [a], mcp_tools_used = [],
                     response_trace = [routed_entry a url]\<rparr>"
        by (simp add: record_agent_def no_tracking_def)
      ultimately show ?thesis using u by auto
    qed
  qed
qed

lemma record_call_effect:
  assumes "record_call env c st = Inr st'"
  shows "case routed_agent env c of
           Some a \<Rightarrow>
             tool_identifier c = None
             \<and> (\<exists>u. map_of agent_url_to_name u = Some a
                  \<and> st' = (if a \<in> set (specialized_agents st) then st
                           else st\<lparr>specialized_agents := specialized_agents st @ [a],
                                   response_trace := response_trace st
                                     @ [routed_entry a (PStr u)]\<rparr>))
         | None \<Rightarrow> st' = (case tool_identifier c of Some t \<Rightarrow> record_tool t st | None \<Rightarrow> st)"
  using assms
proof (cases rule: record_call_cases)
  case (1 name args)
  show ?thesis
  proof (cases "is_a2a (lower name)")
    case True
    with 1 have st: "record_agent env args st = Inr st'"
      and alone: "record_call env c no_tracking = record_agent env args no_tracking"
      and tid: "tool_identifier c = None"
      by (simp_all add: record_call_def tool_identifier_def)
    from record_agent_from_empty [OF st] show ?thesis
    proof
      assume "record_agent env args no_tracking = Inr no_tracking \<and> st' = st"
      with alone tid show ?thesis
        by (simp add: routed_agent_def no_tracking_def)
    next
      assume "\<exists>a u. map_of agent_url_to_name u = Some a
                \<and> record_agent env args no_tracking
                    = Inr \<lparr>specialized_agents = [a], mcp_tools_used = [],
                           response_trace = [routed_entry a (PStr u)]\<rparr>
                \<and> st' = (if a \<in> set (specialized_agents st) then st
                         else st\<lparr>specialized_agents := specialized_agents st @ [a],
                                 response_trace := response_trace st
                                   @ [routed_entry a (PStr u)]\<rparr>)"
      then obtain a u where "map_of agent_url_to_name u = Some a"
        and "record_agent env args no_tracking
                    = Inr \<lparr>specialized_agents = [a], mcp_tools_used = [],
                           response_trace = [routed_entry a (PStr u)]\<rparr>"
        and "st' = (if a \<in> set (specialized_agents st) then st
                         else st\<lparr>specialized_agents := specialized_agents st @ [a],
                                 response_trace := response_trace st
                                   @ [routed_entry a (PStr u)]\<rparr>)"
        by blast
      with alone tid show ?thesis
        by (auto simp add: routed_agent_def)
    qed
  next
    case False
    with 1 show ?thesis
      by (simp add: routed_agent_def record_call_def tool_identifier_def record_tool_def
            no_tracking_def)
  qed
qed

lemma first_seen_filter: "first_seen (filter P xs) = filter P (first_seen xs)"
proof (induction xs rule: first_seen.induct)
  case 1
  show ?case by simp
next
  case (2 x xs)
  have swap: "filter (\<lambda>y. y \<noteq> x) (filter P xs) = filter P (filter (\<lambda>y. y \<noteq> x) xs)"
    by (simp add: conj_commute)
  show ?case
  proof (cases "P x")
    case True
    with 2 swap show ?thesis by simp
  next
    case False
    then have "filter P (filter (\<lambda>y. y \<noteq> x) xs) = filter P xs"
      by (auto intro: filter_cong)
    with False 2 show ?thesis by simp
  qed
qed

lemma set_first_seen [simp]: "set (first_seen xs) = set xs"
  by (induction xs rule: first_seen.induct) auto

lemma distinct_first_seen [simp]: "distinct (first_seen xs)"
  by (induction xs rule: first_seen.induct) simp_all

lemma efold_append:
  "efold f (xs @ ys) s = (case efold f xs s of Inl e \<Rightarrow> Inl e | Inr s' \<Rightarrow> efold f ys s')"
  by (induction xs arbitrary: s) (simp_all split: sum.splits)

lemma efold_first_seen:
  assumes step: "\<And>x s s'. f x s = Inr s' \<Longrightarrow>
      g s' = (case h x of Some t \<Rightarrow> if t \<in> set (g s) then g s else g s @ [t] | None \<Rightarrow> g s)"
  shows "efold f xs s = Inr s' \<Longrightarrow>
      g s' = g s @ filter (\<lambda>t. t \<notin> set (g s)) (first_seen (List.map_filter h xs))"
proof (induction xs arbitrary: s)
  case Nil
  then show ?case by (simp add: List.map_filter_simps)
next
  case (Cons x xs)
  from Cons.prems obtain s1 where s1: "f x s = Inr s1" and rest: "efold f xs s1 = Inr s'"
    by (auto split: sum.splits)
  note ih = Cons.IH [OF rest]
  note st = step [OF s1]
  show ?case
  proof (cases "h x")
    case None
    with ih st show ?thesis by (simp add: List.map_filter_simps)
  next
    case (Some t)
    show ?thesis
    proof (cases "t \<in> set (g s)")
      case True
      have "filter (\<lambda>t. t \<notin> set (g s)) (filter (\<lambda>y. y \<noteq> t) (first_seen (List.map_filter h xs)))
            = filter (\<lambda>t. t \<notin> set (g s)) (first_seen (List.map_filter h xs))"
        using True by (auto intro: filter_cong)
      with True Some ih st show ?thesis
        by (simp add: List.map_filter_simps first_seen_filter)
    next
      case False
      have "filter (\<lambda>u. u \<notin> set (g s) \<and> u \<noteq> t) (first_seen (List.map_filter h xs))
            = filter (\<lambda>u. u \<noteq> t \<and> u \<notin> set (g s)) (first_seen (List.map_filter h xs))"
        by (auto intro: filter_cong)
      with False Some ih st show ?thesis
        by (simp add: List.map_filter_simps first_seen_filter)
    qed
  qed
qed

lemma agents_step:
  assumes "record_call env c st = Inr st'"
  shows "specialized_agents st' =
           (case routed_agent env c of
              Some a \<Rightarrow> if a \<in> set (specialized_agents st) then specialized_agents st
                        else specialized_agents st @ [a]
            | None \<Rightarrow> specialized_agents st)"
  using record_call_effect [OF assms]
  by (auto simp add: record_tool_def split: option.splits)

lemma tools_step:
  assumes "record_call env c st = Inr st'"
  shows "mcp_tools_used st' =
           (case tool_identifier c of
              Some t \<Rightarrow> if t \<in> set (mcp_tools_used st) then mcp_tools_used st
                        else mcp_tools_used st @ [t]
            | None \<Rightarrow> mcp_tools_used st)"
  using record_call_effect [OF assms]
  by (auto simp add: record_tool_def split: option.splits)

lemma agents_of_calls:
  assumes "efold (record_call env) records no_tracking = Inr st"
  shows "specialized_agents st = first_seen (List.map_filter (routed_agent env) records)"
  using efold_first_seen [where f = "record_call env" and g = specialized_agents
          and h = "routed_agent env", OF agents_step assms]
  by (simp add: no_tracking_def)

lemma tools_of_calls:
  assumes "efold (record_call env) records no_tracking = Inr st"
  shows "mcp_tools_used st = first_seen (List.map_filter tool_identifier records)"
  using efold_first_seen [where f = "record_call env" and g = mcp_tools_used
          and h = tool_identifier, OF tools_step assms]
  by (simp add: no_tracking_def)

lemma trace_step:
  assumes "record_call env c st = Inr st'"
  shows "\<exists>new. response_trace st' = response_trace st @ new"
  using record_call_effect [OF assms]
  by (auto simp add: record_tool_def split: option.splits)

lemma trace_grows:
  "efold (record_call env) records st = Inr st' \<Longrightarrow>
     \<exists>rest. response_trace st' = response_trace st @ rest"
proof (induction records arbitrary: st)
  case Nil
  then show ?case by simp
next
  case (Cons c records)
  from Cons.prems obtain s1 where s1: "record_call env c st = Inr s1"
    and rest: "efold (record_call env) records s1 = Inr st'"
    by (auto split: sum.splits)
  from trace_step [OF s1] Cons.IH [OF rest] show ?case by auto
qed

lemma failure_status [simp]:
  "map_of (failure env context e) ''status'' = Some (PStr ''error'')"
  "map_of (failure env context e) ''message'' = None"
  "map_of (failure env context e) ''error'' = Some (PStr (''Failed to process request: '' @ err_str e))"
  "map_of (failure env context e) ''context'' = Some (if truthy context then context else PDict [])"
  by (simp_all add: failure_def)

lemma response_dict_fields:
  assumes "response_dict env context uc message st = Inr (r, c')"
  shows "map_of r ''status'' = Some (PStr ''processed'')"
    and "map_of r ''message'' = Some message"
    and "map_of r ''error'' = None"
    and "map_of r ''specialized_agents'' = Some (PList (map PStr (specialized_agents st)))"
    and "map_of r ''mcp_tools_used'' = Some (PList (map PStr (mcp_tools_used st)))"
    and "map_of r ''response_trace'' = Some (PList (response_trace st))"
  using assms by (auto simp add: response_dict_def ebind_eq_Inr)

lemma process_request_processed:
  assumes "map_of (reply (process_request env q ctx)) ''status'' = Some (PStr ''processed'')"
  shows "\<exists>uc text mc response message st ctx'.
           user_context ctx = Inr uc \<and> prompt env q ctx uc = (Inr text, mc)
           \<and> invoke_async env text = Inr response
           \<and> reconstruct env response = Inr (message, st)
           \<and> response_dict env ctx uc message st = Inr (reply (process_request env q ctx), ctx')"
proof (cases "user_context ctx")
  case (Inl e)
  with assms show ?thesis by (simp add: process_request_def)
next
  case (Inr uc)
  obtain res mc where pr: "prompt env q ctx uc = (res, mc)"
    by (cases "prompt env q ctx uc")
  show ?thesis
  proof (cases res)
    case (Inl e)
    with Inr pr assms show ?thesis by (simp add: process_request_def)
  next
    case tx: (Inr t)
    show ?thesis
    proof (cases "ebind (invoke_async env t) (\<lambda>response.
                     ebind (reconstruct env response) (\<lambda>(message, st).
                     response_dict env ctx uc message st))")
      case (Inl e)
      with Inr pr tx assms show ?thesis by (simp add: process_request_def)
    next
      case ok: (Inr pair)
      obtain r c' where pair: "pair = (r, c')" by (cases pair)
      from ok pair obtain response message st where
        "invoke_async env t = Inr response"
        "reconstruct env response = Inr (message, st)"
        "response_dict env ctx uc message st = Inr (r, c')"
        by (auto simp add: ebind_eq_Inr)
      moreover from Inr pr tx ok pair have "reply (process_request env q ctx) = r"
        by (simp add: process_request_def)
      ultimately show ?thesis using Inr pr tx by auto
    qed
  qed
qed

lemma with_details_keeps:
  assumes "with_details rp p r = Inr r'" and "k \<noteq> ''auth_info''" and "k \<noteq> ''processing_steps''"
  shows "map_of r' k = map_of r k"
  using assms by (auto simp add: with_details_def Let_def ebind_eq_Inr update_conv' split: if_splits)

lemma with_memory_info_keeps:
  assumes "with_memory_info p c r = Inr r'" and "k \<noteq> ''memory_info''"
  shows "map_of r' k = map_of r k"
  using assms by (auto simp add: with_memory_info_def ebind_eq_Inr update_conv')

lemma with_session_keeps:
  assumes "with_session sid r = Inr r'" and "k \<noteq> ''session_info''" and "k \<noteq> ''session_id''"
    and "k \<noteq> ''context''"
  shows "map_of r' k = map_of r k"
  using assms
  by (auto simp add: with_session_def Let_def ebind_eq_Inr update_conv' split: if_splits)

lemma finish_keeps:
  assumes "finish env p out = Inr r"
    and "k \<notin> {''auth_info'', ''processing_steps'', ''memory_info'', ''session_info'',
               ''session_id'', ''context''}"
  shows "map_of r k = map_of (reply out) k"
proof -
  from assms(1) obtain r1 r2 where
    "with_details (repr env) p (reply out) = Inr r1"
    "with_memory_info p (context_out out) r1 = Inr r2"
    "with_session (recovered_session (session p)) r2 = Inr r"
    by (auto simp add: finish_def ebind_eq_Inr)
  with assms(2) show ?thesis
    using with_details_keeps [of "repr env" p "reply out" r1 k]
      with_memory_info_keeps [of p "context_out out" r1 r2 k]
      with_session_keeps [of "recovered_session (session p)" r2 r k]
    by simp
qed

lemma send_message_cases:
  assumes "send_message env request = (response, cs)"
  obtains (crashed) e where "response = crashed e"
  | (invalid) "as_dict request = Inr None" "response = invalid_request" "cs = []"
  | (no_question) kvs where "as_dict request = Inr (Some kvs)" "prepare kvs = Inr None"
      "response = no_question" "cs = []"
  | (full) kvs p where "as_dict request = Inr (Some kvs)" "prepare kvs = Inr (Some p)"
      "finish env p (process_request env (question p) (enhanced p)) = Inr response"
      "cs = calls (process_request env (question p) (enhanced p))"
proof (cases "as_dict request")
  case (Inl e)
  with assms have "response = crashed e" by (simp add: send_message_def)
  then show ?thesis by (rule crashed)
next
  case (Inr d)
  show ?thesis
  proof (cases d)
    case None
    with Inr assms have "response = invalid_request" "cs = []"
      by (simp_all add: send_message_def)
    with Inr None show ?thesis by (intro invalid) simp_all
  next
    case (Some kvs)
    show ?thesis
    proof (cases "prepare kvs")
      case (Inl e)
      with Inr Some assms have "response = crashed e" by (simp add: send_message_def)
      then show ?thesis by (rule crashed)
    next
      case prep: (Inr po)
      show ?thesis
      proof (cases po)
        case None
        with Inr Some prep assms have "response = no_question" "cs = []"
          by (simp_all add: send_message_def)
        with Inr Some prep None show ?thesis by (intro no_question) simp_all
      next
        case p: (Some p)
        show ?thesis
        proof (cases "finish env p (process_request env (question p) (enhanced p))")
          case (Inl e)
          with Inr Some prep p assms have "response = crashed e"
            by (simp add: send_message_def Let_def)
          then show ?thesis by (rule crashed)
        next
          case fin: (Inr r)
          with Inr Some prep p assms have "response = r"
            "cs = calls (process_request env (question p) (enhanced p))"
            by (simp_all add: send_message_def Let_def)
          with Inr Some prep p fin show ?thesis by (intro full) simp_all
        qed
      qed
    qed
  qed
qed

lemma set_map_filter: "set (List.map_filter h xs) = {y. \<exists>x \<in> set xs. h x = Some y}"
  by (induction xs) (auto simp add: List.map_filter_simps split: option.splits)

lemma unique_by_key:
  "distinct (map f es) \<Longrightarrow> x \<in> set es \<Longrightarrow> filter (\<lambda>e. f e = f x) es = [x]"
proof (induction es)
  case Nil
  then show ?case by simp
next
  case (Cons e es)
  show ?case
  proof (cases "e = x")
    case True
    with Cons.prems have notin: "f x \<notin> f ` set es" by simp
    have "\<forall>y \<in> set es. f y \<noteq> f x"
    proof
      fix y assume "y \<in> set es"
      then have "f y \<in> f ` set es" by simp
      with notin show "f y \<noteq> f x" by metis
    qed
    then have "filter (\<lambda>e. f e = f x) es = []" by (simp add: filter_empty_conv)
    with True show ?thesis by simp
  next
    case False
    with Cons.prems have "x \<in> set es" "f e \<noteq> f x" by auto
    with Cons show ?thesis by simp
  qed
qed

lemma count_list_distinct: "distinct xs \<Longrightarrow> x \<in> set xs \<Longrightarrow> count_list xs x = 1"
  by (induction xs) (auto simp add: count_list_0_iff)

lemma consistent_loop:
  assumes "efold (record_call env) records no_tracking = Inr st"
  shows "consistent st"
  using consistent_no_tracking assms
  by (rule efold_invariant [where P = consistent, rotated]) (rule consistent_record_call)

subsection \<open>One trace entry per agent\<close>

text \<open>
  Claim C3. Let the call records found for a request be \<open>pre @ c # post\<close>, where \<open>c\<close>
  is the first record that routes to the agent \<open>a\<close> (a record routes to an agent when
  its name is an agent-routing name and its address is in the address table), and let the
  reconstruction go through. However often \<open>post\<close> routes to \<open>a\<close> again, the trace
  is the trace of \<open>pre\<close>, then the entry of \<open>a\<close> with the address of \<open>c\<close>, then
  entries of later records; that entry is the only agent entry named \<open>a\<close>; \<open>a\<close>
  occurs exactly once in \<^verbatim>\<open>specialized_agents\<close>, which lists the agents routed to
  in the order of their first occurrence. The response dictionary carries these two lists
  unchanged (\<open>response_dict_fields\<close>).
\<close>

theorem agent_trace_deduplicated:
  assumes "call_records env response = Inr (pre @ c # post)"
      and "reconstruct env response = Inr (message, st)"
      and "routed_agent env c = Some a"
      and "\<forall>c' \<in> set pre. routed_agent env c' \<noteq> Some a"
  shows "\<exists>st1 u rest.
           efold (record_call env) pre no_tracking = Inr st1
           \<and> map_of agent_url_to_name u = Some a
           \<and> response_trace st = response_trace st1 @ routed_entry a (PStr u) # rest
           \<and> filter (\<lambda>e. field_of ''name'' e = PStr a)
                 (entries_of_type ''agent'' (response_trace st)) = [routed_entry a (PStr u)]
           \<and> count_list (specialized_agents st) a = 1
           \<and> specialized_agents st
               = first_seen (List.map_filter (routed_agent env) (pre @ c # post))"
proof -
  from assms(1,2) obtain st0 where
    loop: "efold (record_call env) (pre @ c # post) no_tracking = Inr st0"
    and det: "detect_agents message st0 = Inr st"
    by (auto simp add: reconstruct_def ebind_eq_Inr)
  from loop obtain st1 st2 where
    pre: "efold (record_call env) pre no_tracking = Inr st1"
    and step: "record_call env c st1 = Inr st2"
    and post: "efold (record_call env) post st2 = Inr st0"
    by (auto simp add: efold_append split: sum.splits)
  have "a \<notin> set (specialized_agents st1)"
    using agents_of_calls [OF pre] assms(4) by (auto simp add: set_map_filter)
  with record_call_effect [OF step] assms(3) obtain u where
    u: "map_of agent_url_to_name u = Some a"
    and st2: "st2 = st1\<lparr>specialized_agents := specialized_agents st1 @ [a],
                        response_trace := response_trace st1 @ [routed_entry a (PStr u)]\<rparr>"
    by auto
  from trace_grows [OF post] st2 obtain rest where
    trace: "response_trace st0 = response_trace st1 @ routed_entry a (PStr u) # rest"
    by auto
  have agents: "specialized_agents st0
                  = first_seen (List.map_filter (routed_agent env) (pre @ c # post))"
    by (rule agents_of_calls [OF loop])
  then have mem: "a \<in> set (specialized_agents st0)"
    using assms(3) by (auto simp add: set_map_filter)
  then have "specialized_agents st0 \<noteq> []" by auto
  with det have same: "st = st0" by (simp add: detect_agents_def)
  have cons: "consistent st0" by (rule consistent_loop [OF loop])
  then have "distinct (map (field_of ''name'') (entries_of_type ''agent'' (response_trace st0)))"
    by (metis consistent_def distinct_map inj_onI pyval.inject(3))
  moreover have "routed_entry a (PStr u) \<in> set (entries_of_type ''agent'' (response_trace st0))"
    by (simp add: trace entries_of_type_def routed_entry_def)
  ultimately have "filter (\<lambda>e. field_of ''name'' e = field_of ''name'' (routed_entry a (PStr u)))
                     (entries_of_type ''agent'' (response_trace st0)) = [routed_entry a (PStr u)]"
    by (rule unique_by_key)
  then have uniq: "filter (\<lambda>e. field_of ''name'' e = PStr a)
                     (entries_of_type ''agent'' (response_trace st0)) = [routed_entry a (PStr u)]"
    by simp
  from cons mem have "count_list (specialized_agents st0) a = 1"
    by (simp add: consistent_def count_list_distinct)
  with pre u trace uniq agents same show ?thesis by blast
qed

theorem agent_trace_deduplicated_witness:
  "reconstruct stub_env routing_result
     = Inr (PStr ''Done'',
            \<lparr>specialized_agents = [''TicketAgent''],
             mcp_tools_used = [''dev-cs-ticket-create-ticket-target___create_ticket''],
             response_trace =
               [tool_entry ''dev-cs-ticket-create-ticket-target___create_ticket'',
                routed_entry ''TicketAgent'' (PStr ''http://127.0.0.1:9003'')]\<rparr>)
   \<and> count_list [''TicketAgent''] ''TicketAgent'' = 1"
proof -
  let ?final = "\<lparr>specialized_agents = [''TicketAgent''],
             mcp_tools_used = [''dev-cs-ticket-create-ticket-target___create_ticket''],
             response_trace =
               [tool_entry ''dev-cs-ticket-create-ticket-target___create_ticket'',
                routed_entry ''TicketAgent'' (PStr ''http://127.0.0.1:9003'')]\<rparr>"
  have h1: "call_records stub_env routing_result
              = Inr ([create_ticket_call] @ ticket_call # [create_ticket_call, ticket_call])"
    by code_simp
  have h2: "reconstruct stub_env routing_result = Inr (PStr ''Done'', ?final)"
    by code_simp
  have h3: "routed_agent stub_env ticket_call = Some ''TicketAgent''"
    by code_simp
  have h4: "\<forall>c' \<in> set [create_ticket_call]. routed_agent stub_env c' \<noteq> Some ''TicketAgent''"
    by code_simp
  from agent_trace_deduplicated [OF h1 h2 h3 h4]
  have "count_list (specialized_agents ?final) ''TicketAgent'' = 1" by blast
  with h2 show ?thesis by simp
qed

subsection \<open>The trace and the two name lists\<close>

text \<open>
  Claim C10. In every response with status \<open>processed\<close>, \<^verbatim>\<open>specialized_agents\<close> is
  the list of the \<^verbatim>\<open>name\<close> fields of the trace entries of type \<open>agent\<close>, and
  \<^verbatim>\<open>mcp_tools_used\<close> the list of the \<^verbatim>\<open>tool\<close> fields of the entries of type
  \<open>tool\<close>, element for element; neither list has a duplicate.
\<close>

theorem trace_names_consistent:
  assumes "send_message env request = (response, cs)"
      and "map_of response ''status'' = Some (PStr ''processed'')"
  shows "\<exists>agents tools trace.
           map_of response ''specialized_agents'' = Some (PList agents)
           \<and> map_of response ''mcp_tools_used'' = Some (PList tools)
           \<and> map_of response ''response_trace'' = Some (PList trace)
           \<and> agents = map (field_of ''name'') (entries_of_type ''agent'' trace)
           \<and> tools = map (field_of ''tool'') (entries_of_type ''tool'' trace)
           \<and> distinct agents \<and> distinct tools"
  using assms(1)
proof (cases rule: send_message_cases)
  case (crashed e)
  with assms(2) show ?thesis by (simp add: crashed_def)
next
  case invalid
  with assms(2) show ?thesis by (simp add: invalid_request_def)
next
  case (no_question kvs)
  with assms(2) show ?thesis by (simp add: no_question_def)
next
  case (full kvs p)
  let ?out = "process_request env (question p) (enhanced p)"
  have keep: "map_of response k = map_of (reply ?out) k"
    if "k \<in> {''status'', ''specialized_agents'', ''mcp_tools_used'', ''response_trace''}" for k
    using finish_keeps [OF full(3), of k] that by auto
  from keep [of "''status''"] assms(2)
  have "map_of (reply ?out) ''status'' = Some (PStr ''processed'')" by simp
  from process_request_processed [OF this] obtain uc message st ctx' res where
    rec: "reconstruct env res = Inr (message, st)"
    and rd: "response_dict env (enhanced p) uc message st = Inr (reply ?out, ctx')"
    by blast
  note fields = response_dict_fields [OF rd]
  have cons: "consistent st" by (rule consistent_reconstruct [OF rec])
  have a: "map_of response ''specialized_agents'' = Some (PList (map PStr (specialized_agents st)))"
    using keep [of "''specialized_agents''"] fields(4) by simp
  have t: "map_of response ''mcp_tools_used'' = Some (PList (map PStr (mcp_tools_used st)))"
    using keep [of "''mcp_tools_used''"] fields(5) by simp
  have r: "map_of response ''response_trace'' = Some (PList (response_trace st))"
    using keep [of "''response_trace''"] fields(6) by simp
  from cons have names: "map PStr (specialized_agents st)
      = map (field_of ''name'') (entries_of_type ''agent'' (response_trace st))"
    by (simp add: consistent_def)
  from cons have "entries_of_type ''tool'' (response_trace st) = map tool_entry (mcp_tools_used st)"
    by (simp add: consistent_def)
  then have tools: "map PStr (mcp_tools_used st)
      = map (field_of ''tool'') (entries_of_type ''tool'' (response_trace st))"
    by (simp add: comp_def)
  from cons have "distinct (specialized_agents st)" "distinct (mcp_tools_used st)"
    by (simp_all add: consistent_def)
  then have "distinct (map PStr (specialized_agents st))"
    "distinct (map PStr (mcp_tools_used st))"
    by (simp_all add: distinct_map inj_on_def)
  with a t r names tools show ?thesis by blast
qed

theorem trace_names_consistent_witness:
  "map_of (fst (send_message routing_env
      (Value (PDict [(''question'', PStr ''Create a ticket for login issues''),
                     (''context'', PDict [(''user_id'', PStr ''u2'')])]))))
     ''specialized_agents'' = Some (PList [PStr ''TicketAgent''])
   \<and> (\<exists>agents tools trace.
         map_of (fst (send_message routing_env
            (Value (PDict [(''question'', PStr ''Create a ticket for login issues''),
                           (''context'', PDict [(''user_id'', PStr ''u2'')])]))))
           ''response_trace'' = Some (PList trace)
         \<and> agents = map (field_of ''name'') (entries_of_type ''agent'' trace)
         \<and> [PStr ''TicketAgent''] = agents
         \<and> distinct agents)"
proof -
  let ?req = "Value (PDict [(''question'', PStr ''Create a ticket for login issues''),
                     (''context'', PDict [(''user_id'', PStr ''u2'')])])"
  have h1: "send_message routing_env ?req
              = (fst (send_message routing_env ?req), snd (send_message routing_env ?req))"
    by simp
  have h2: "map_of (fst (send_message routing_env ?req)) ''status'' = Some (PStr ''processed'')"
    by code_simp
  have h3: "map_of (fst (send_message routing_env ?req)) ''specialized_agents''
              = Some (PList [PStr ''TicketAgent''])"
    by code_simp
  from trace_names_consistent [OF h1 h2] h3 show ?thesis by auto
qed

subsection \<open>Tool calls\<close>

text \<open>
  Claim C9, as stated, fails: the name \<^verbatim>\<open>kb___search\<close> is no agent-routing name and
  has the separator between a target id and a function id, and nothing is recorded for
  it, because the test of the source also asks for the word \<^verbatim>\<open>target\<close>.
\<close>

theorem tool_call_without_target_counterexample:
  "\<not> is_a2a (lower ''kb___search'') \<and> contains ''___'' ''kb___search''
   \<and> record_call stub_env (PDict [(''name'', PStr ''kb___search'')]) no_tracking
       = Inr no_tracking"
  by code_simp

text \<open>
  Claim C9, amended. For a call record whose name is text, is no agent-routing name and
  contains the separator \<^verbatim>\<open>___\<close>: when the name also contains \<^verbatim>\<open>target\<close> (in any
  case) and is not yet in \<^verbatim>\<open>mcp_tools_used\<close>, one tool entry is appended and the
  name is recorded; otherwise nothing changes. Over a whole list of call records,
  \<^verbatim>\<open>mcp_tools_used\<close> is the list of the tool identifiers at their first occurrence,
  and the tool entries of the trace are exactly one per identifier, in that order.
\<close>

theorem tool_call_classification:
  assumes "call_name_args tool_call = Inr (PStr name, args)"
      and "\<not> is_a2a (lower name)"
      and "contains ''___'' name"
  shows "record_call env tool_call st =
           Inr (if contains ''target'' (lower name) \<and> name \<notin> set (mcp_tools_used st)
                then st\<lparr>mcp_tools_used := mcp_tools_used st @ [name],
                        response_trace := response_trace st @ [tool_entry name]\<rparr>
                else st)
         \<and> (\<forall>records st'. efold (record_call env) records no_tracking = Inr st' \<longrightarrow>
               mcp_tools_used st' = first_seen (List.map_filter tool_identifier records)
               \<and> entries_of_type ''tool'' (response_trace st')
                   = map tool_entry (mcp_tools_used st'))"
proof (intro conjI allI impI)
  show "record_call env tool_call st =
           Inr (if contains ''target'' (lower name) \<and> name \<notin> set (mcp_tools_used st)
                then st\<lparr>mcp_tools_used := mcp_tools_used st @ [name],
                        response_trace := response_trace st @ [tool_entry name]\<rparr>
                else st)"
    using assms by (simp add: record_call_def is_mcp_def record_tool_def)
next
  fix records st'
  assume loop: "efold (record_call env) records no_tracking = Inr st'"
  show "mcp_tools_used st' = first_seen (List.map_filter tool_identifier records)"
    by (rule tools_of_calls [OF loop])
  from consistent_loop [OF loop]
  show "entries_of_type ''tool'' (response_trace st') = map tool_entry (mcp_tools_used st')"
    by (simp add: consistent_def)
qed

theorem tool_call_classification_witness:
  "record_call stub_env create_ticket_call no_tracking
     = Inr \<lparr>specialized_agents = [],
            mcp_tools_used = [''dev-cs-ticket-create-ticket-target___create_ticket''],
            response_trace = [tool_entry ''dev-cs-ticket-create-ticket-target___create_ticket'']\<rparr>
   \<and> mcp_tools_used \<lparr>specialized_agents = [''TicketAgent''],
             mcp_tools_used = [''dev-cs-ticket-create-ticket-target___create_ticket''],
             response_trace =
               [tool_entry ''dev-cs-ticket-create-ticket-target___create_ticket'',
                routed_entry ''TicketAgent'' (PStr ''http://127.0.0.1:9003'')]\<rparr>
       = first_seen (List.map_filter tool_identifier
           [create_ticket_call, ticket_call, create_ticket_call, ticket_call])"
proof -
  have h1: "call_name_args create_ticket_call
              = Inr (PStr ''dev-cs-ticket-create-ticket-target___create_ticket'',
                     PDict [(''title'', PStr ''Login issues'')])"
    by code_simp
  have h2: "\<not> is_a2a (lower ''dev-cs-ticket-create-ticket-target___create_ticket'')"
    by code_simp
  have h3: "contains ''___'' ''dev-cs-ticket-create-ticket-target___create_ticket''"
    by code_simp
  have h4: "contains ''target'' (lower ''dev-cs-ticket-create-ticket-target___create_ticket'')"
    by code_simp
  have h5: "efold (record_call stub_env)
              [create_ticket_call, ticket_call, create_ticket_call, ticket_call] no_tracking
            = Inr \<lparr>specialized_agents = [''TicketAgent''],
             mcp_tools_used = [''dev-cs-ticket-create-ticket-target___create_ticket''],
             response_trace =
               [tool_entry ''dev-cs-ticket-create-ticket-target___create_ticket'',
                routed_entry ''TicketAgent'' (PStr ''http://127.0.0.1:9003'')]\<rparr>"
    by code_simp
  note t = tool_call_classification [OF h1 h2 h3, of stub_env no_tracking]
  from t h4 have one: "record_call stub_env create_ticket_call no_tracking
     = Inr \<lparr>specialized_agents = [],
            mcp_tools_used = [''dev-cs-ticket-create-ticket-target___create_ticket''],
            response_trace = [tool_entry ''dev-cs-ticket-create-ticket-target___create_ticket'']\<rparr>"
    by (simp add: no_tracking_def)
  from t have "\<forall>records st'. efold (record_call stub_env) records no_tracking = Inr st' \<longrightarrow>
               mcp_tools_used st' = first_seen (List.map_filter tool_identifier records)
               \<and> entries_of_type ''tool'' (response_trace st')
                   = map tool_entry (mcp_tools_used st')"
    by (rule conjunct2)
  with h5 one show ?thesis by blast
qed

subsection \<open>Memory assembly\<close>

lemma conversation_lines:
  "\<forall>m \<in> set ms. is_turn m \<Longrightarrow>
     efold (conversation_line rp) ms acc = Inr (acc @ concat (map (role_tagged_line rp) ms))"
proof (induction ms arbitrary: acc)
  case Nil
  then show ?case by simp
next
  case (Cons m ms)
  from Cons.prems obtain kvs r where m: "m = PDict kvs"
    and r: "lookup kvs ''role'' (PStr ''unknown'') = PStr r"
    by (auto simp add: is_turn_def split: pyval.splits)
  then have "conversation_line rp m acc = Inr (acc @ role_tagged_line rp m)"
    by (simp add: conversation_line_def role_tagged_line_def py_upper_def lookup_def)
  with Cons show ?case by simp
qed

lemma last_n_suffix: "\<exists>older. xs = older @ last_n n xs"
  by (metis append_take_drop_id last_n_def)

lemma length_last_n: "length (last_n n xs) = min n (length xs)"
  by (simp add: last_n_def)

lemma user_info_contains:
  assumes "user_info rp q c uc history = Inr t"
  shows "\<exists>a b. t = a @ history @ b"
proof -
  from assms obtain department perms session_id where
    "t = nl @ ''User Context:'' @ nl
              @ ''- Username: '' @ py_str rp (lookup uc ''username'' PNone) @ nl
              @ ''- Department: '' @ department @ nl
              @ ''- Permissions: '' @ perms @ nl
              @ ''- Authenticated: '' @ py_str rp (lookup uc ''authenticated'' PNone) @ nl
              @ ''- User ID: '' @ py_str rp (lookup uc ''user_id'' PNone) @ '' (for LTM)'' @ nl
              @ ltm_note rp (lookup uc ''user_id'' PNone) @ nl
              @ history @ nl
              @ ''Session ID: '' @ py_str rp session_id @ nl
              @ ''Customer Request: '' @ py_str rp q @ nl"
    unfolding user_info_def Let_def ebind_eq_Inr by blast
  then have "t = (nl @ ''User Context:'' @ nl
              @ ''- Username: '' @ py_str rp (lookup uc ''username'' PNone) @ nl
              @ ''- Department: '' @ department @ nl
              @ ''- Permissions: '' @ perms @ nl
              @ ''- Authenticated: '' @ py_str rp (lookup uc ''authenticated'' PNone) @ nl
              @ ''- User ID: '' @ py_str rp (lookup uc ''user_id'' PNone) @ '' (for LTM)'' @ nl
              @ ltm_note rp (lookup uc ''user_id'' PNone) @ nl)
              @ history @ (nl
              @ ''Session ID: '' @ py_str rp session_id @ nl
              @ ''Customer Request: '' @ py_str rp q @ nl)"
    by (simp only: append_assoc)
  then show ?thesis by blast
qed

text \<open>
  Claim C8. When the turn history of the context is a non-empty list whose last six
  entries are role/content dictionaries, the memory block is the
  \<^verbatim>\<open>PREVIOUS CONVERSATION\<close> header, the role-tagged lines of exactly the last six
  entries in the caller's order (all of them when there are fewer), and the footer; no
  call is made to the Memory Store; the entries before the last six do not occur in it;
  and every prompt built for the request contains this block.
\<close>

theorem history_projection_window:
  assumes "dict_get context ''conversation_history'' (PList []) = Inr (PList msgs)"
      and "msgs \<noteq> []"
      and "\<forall>m \<in> set (last_n 6 msgs). is_turn m"
  shows "history_text env q context uid
           = (Inr (previous_header
                   @ concat (map (role_tagged_line (repr env)) (last_n 6 msgs))
                   @ previous_footer), [])
         \<and> (\<exists>older. msgs = older @ last_n 6 msgs)
         \<and> length (last_n 6 msgs) = min 6 (length msgs)
         \<and> (\<forall>uc t cs. prompt env q context uc = (Inr t, cs) \<longrightarrow>
               (\<exists>before after.
                  t = before @ previous_header
                        @ concat (map (role_tagged_line (repr env)) (last_n 6 msgs))
                        @ previous_footer @ after))"
proof (intro conjI allI impI)
  show ht: "history_text env q context uid
           = (Inr (previous_header
                   @ concat (map (role_tagged_line (repr env)) (last_n 6 msgs))
                   @ previous_footer), [])" for uid
    using assms
    by (simp add: history_text_def previous_conversation_def conversation_lines)
  show "\<exists>older. msgs = older @ last_n 6 msgs" by (rule last_n_suffix)
  show "length (last_n 6 msgs) = min 6 (length msgs)" by (rule length_last_n)
  fix uc t cs
  assume p: "prompt env q context uc = (Inr t, cs)"
  from assms(1,2) have "truthy context"
    by (cases "context") (auto split: option.splits)
  with p ht [of "lookup uc ''user_id'' PNone"]
  have "user_info (repr env) q context uc
          (previous_header @ concat (map (role_tagged_line (repr env)) (last_n 6 msgs))
           @ previous_footer) = Inr t"
    by (simp add: prompt_def)
  then have "\<exists>a b. t = a @ (previous_header
           @ concat (map (role_tagged_line (repr env)) (last_n 6 msgs))
           @ previous_footer) @ b"
    by (rule user_info_contains)
  then show "\<exists>before after.
                  t = before @ previous_header
                        @ concat (map (role_tagged_line (repr env)) (last_n 6 msgs))
                        @ previous_footer @ after"
    by auto
qed

theorem history_projection_window_witness:
  "history_text stub_env (PStr ''What is my name?'')
     (PDict [(''user_id'', PStr ''u1''), (''conversation_history'', PList seven_turns)])
     (PStr ''u1'')
   = (Inr (previous_header
           @ ''ASSISTANT: m2'' @ nl @ ''USER: m3'' @ nl @ ''ASSISTANT: m4'' @ nl
           @ ''USER: m5'' @ nl @ ''ASSISTANT: m6'' @ nl @ ''USER: m7'' @ nl
           @ previous_footer), [])"
proof -
  have h1: "dict_get (PDict [(''user_id'', PStr ''u1''), (''conversation_history'', PList seven_turns)])
              ''conversation_history'' (PList []) = Inr (PList seven_turns)"
    by simp
  have h2: "seven_turns \<noteq> []" by (simp add: seven_turns_def)
  have h3: "\<forall>m \<in> set (last_n 6 seven_turns). is_turn m" by code_simp
  have h4: "concat (map (role_tagged_line (repr stub_env)) (last_n 6 seven_turns))
              = ''ASSISTANT: m2'' @ nl @ ''USER: m3'' @ nl @ ''ASSISTANT: m4'' @ nl
           @ ''USER: m5'' @ nl @ ''ASSISTANT: m6'' @ nl @ ''USER: m7'' @ nl"
    by code_simp
  from history_projection_window [OF h1 h2 h3, of stub_env "PStr ''What is my name?''" "PStr ''u1''"]
  show ?thesis unfolding h4 by simp
qed

lemma ltm_session_id_dict: "\<exists>s. ltm_session_id (PDict kvs) uid = Inr s"
  by (simp add: ltm_session_id_def)

lemma ltm_history_cases:
  "fst (ltm_history env q (PDict kvs) uid) = ltm_failed (repr env) uid
   \<or> fst (ltm_history env q (PDict kvs) uid) = no_ltm_found (repr env) uid
   \<or> (\<forall>ev \<in> set (snd (ltm_history env q (PDict kvs) uid)). \<not> raised env ev)"
proof (cases "MemoryClient env")
  case (Some e)
  then show ?thesis by (simp add: ltm_history_def)
next
  case None
  obtain s where s: "ltm_session_id (PDict kvs) uid = Inr s"
    using ltm_session_id_dict by blast
  show ?thesis
  proof (cases "get_last_k_turns env (MEMORY_ID env) uid s 5")
    case (Inl e)
    with None s show ?thesis by (simp add: ltm_history_def)
  next
    case (Inr recent_turns)
    show ?thesis
    proof (cases "truthy recent_turns")
      case False
      with None s Inr show ?thesis by (simp add: ltm_history_def)
    next
      case True
      show ?thesis
      proof (cases "sessions_block (repr env) recent_turns")
        case (Inl e)
        with None s Inr True show ?thesis by (simp add: ltm_history_def)
      next
        case block: (Inr b)
        with None s Inr True show ?thesis by (simp add: ltm_history_def)
      qed
    qed
  qed
qed

lemma starts_with_append [simp]: "starts_with p (p @ s)"
  by (induction p) simp_all

lemma process_request_succeeds:
  assumes "user_context ctx = Inr uc"
      and "prompt env q ctx uc = (Inr t, mc)"
      and "invoke_async env t = Inr response"
      and "reconstruct env response = Inr (message, st)"
  shows "map_of (reply (process_request env q ctx)) ''status'' = Some (PStr ''processed'')
         \<and> map_of (reply (process_request env q ctx)) ''error'' = None
         \<and> map_of (reply (process_request env q ctx)) ''message'' = Some message
         \<and> calls (process_request env q ctx) = mc @ [InvokeAgent t]"
proof -
  have "\<exists>r c'. response_dict env ctx uc message st = Inr (r, c')"
  proof (cases "truthy ctx")
    case False
    then show ?thesis by (simp add: response_dict_def)
  next
    case True
    with assms(1) obtain kvs where "ctx = PDict kvs"
      by (cases ctx) (simp_all add: user_context_def)
    then show ?thesis by (simp add: response_dict_def set_item_def)
  qed
  then obtain r c' where rd: "response_dict env ctx uc message st = Inr (r, c')" by blast
  with assms have "process_request env q ctx
      = \<lparr>reply = r, context_out = c', calls = mc @ [InvokeAgent t]\<rparr>"
    by (simp add: process_request_def)
  with response_dict_fields [OF rd] show ?thesis by simp
qed

lemma contains_append: "contains n (a @ n @ b)"
proof (induction a)
  case Nil
  have "starts_with n (n @ b)" by simp
  then show ?case by (cases "n @ b") auto
next
  case (Cons c a)
  then show ?case by simp
qed

lemma all_text_strings [simp]: "all_text (map PStr ps) = Some ps"
  by (induction ps) simp_all

lemma user_context_dict:
  "user_context (PDict kvs)
     = Inr [(''user_id'', lookup kvs ''user_id'' (PStr ''anonymous'')),
            (''username'', lookup kvs ''username'' (PStr ''Anonymous'')),
            (''department'', lookup kvs ''department'' (PStr ''general'')),
            (''permissions'', lookup kvs ''permissions'' (PList [])),
            (''authenticated'', lookup kvs ''authenticated'' (PBool False))]"
  by (cases kvs) (simp_all add: user_context_def lookup_def)

lemma user_info_returns:
  assumes "lookup uc ''department'' PNone = PStr d"
      and "lookup uc ''permissions'' PNone = PList (map PStr ps)"
  shows "\<exists>t. user_info rp q (PDict kvs) uc history = Inr t"
  using assms by (simp add: user_info_def Let_def py_title_def py_join_def)

lemma memory_calls_branch:
  assumes "snd (history_text env q (PDict kvs) uid) \<noteq> []"
  shows "\<not> truthy (lookup kvs ''conversation_history'' (PList []))"
    and "truthy uid" and "uid \<noteq> PStr ''anonymous''"
  using assms by (auto simp add: history_text_def lookup_def split: if_splits)

text \<open>
  Claim C7. For every request whose context is a dictionary (the Memory Store is called
  for no other, and only for a known user without turn history): if a call to the Memory
  Store raised during the long-term retrieval, the memory block is still a text, namely
  one of the two notices under the header
  \<^verbatim>\<open>NO CONVERSATION HISTORY IN THIS SESSION\<close>, and the request is not aborted: the
  prompt is the user information written around this notice, with the calls made so far,
  and it is a text whenever the department is a text and the permissions are a list of
  texts. The decision step is then called with this prompt, which contains the notice,
  and when it returns a result that the trace reconstruction accepts, the response has
  status \<open>processed\<close>, the message of the decision step, and no \<^verbatim>\<open>error\<close> field.
\<close>

theorem memory_failure_absorbed:
  assumes "uid = lookup kvs ''user_id'' (PStr ''anonymous'')"
      and "\<exists>ev \<in> set (snd (history_text env q (PDict kvs) uid)). raised env ev"
  shows "\<exists>notice uc.
           (notice = ltm_failed (repr env) uid \<or> notice = no_ltm_found (repr env) uid)
         \<and> starts_with no_history_header notice
         \<and> fst (history_text env q (PDict kvs) uid) = Inr notice
         \<and> user_context (PDict kvs) = Inr uc
         \<and> prompt env q (PDict kvs) uc
             = (user_info (repr env) q (PDict kvs) uc notice,
                snd (history_text env q (PDict kvs) uid))
         \<and> ((\<exists>d. lookup kvs ''department'' (PStr ''general'') = PStr d)
             \<and> (\<exists>ps. lookup kvs ''permissions'' (PList []) = PList (map PStr ps))
             \<longrightarrow> (\<exists>t. user_info (repr env) q (PDict kvs) uc notice = Inr t))
         \<and> (\<forall>t response message st.
               user_info (repr env) q (PDict kvs) uc notice = Inr t
               \<and> invoke_async env t = Inr response
               \<and> reconstruct env response = Inr (message, st)
               \<longrightarrow> (\<exists>before after. t = before @ notice @ after)
                   \<and> calls (process_request env q (PDict kvs))
                     = snd (history_text env q (PDict kvs) uid) @ [InvokeAgent t]
                   \<and> map_of (reply (process_request env q (PDict kvs))) ''status''
                     = Some (PStr ''processed'')
                   \<and> map_of (reply (process_request env q (PDict kvs))) ''error'' = None
                   \<and> map_of (reply (process_request env q (PDict kvs))) ''message''
                     = Some message)"
proof -
  let ?uc = "[(''user_id'', lookup kvs ''user_id'' (PStr ''anonymous'')),
              (''username'', lookup kvs ''username'' (PStr ''Anonymous'')),
              (''department'', lookup kvs ''department'' (PStr ''general'')),
              (''permissions'', lookup kvs ''permissions'' (PList [])),
              (''authenticated'', lookup kvs ''authenticated'' (PBool False))]"
  let ?mc = "snd (history_text env q (PDict kvs) uid)"
  have uc: "user_context (PDict kvs) = Inr ?uc" by (rule user_context_dict)
  have id: "lookup ?uc ''user_id'' PNone = uid" by (simp add: assms(1) lookup_def)
  from assms(2) have "snd (history_text env q (PDict kvs) uid) \<noteq> []" by auto
  note branch = memory_calls_branch [OF this]
  have h: "history_text env q (PDict kvs) uid
             = (Inr (fst (ltm_history env q (PDict kvs) uid)),
                snd (ltm_history env q (PDict kvs) uid))"
    using branch
    by (simp add: history_text_def lookup_def case_prod_beta)
  with assms(2) ltm_history_cases [of env q kvs uid]
  have "fst (history_text env q (PDict kvs) uid) = Inr (ltm_failed (repr env) uid)
          \<or> fst (history_text env q (PDict kvs) uid) = Inr (no_ltm_found (repr env) uid)"
    by auto
  then obtain notice where
    n: "notice = ltm_failed (repr env) uid \<or> notice = no_ltm_found (repr env) uid"
    and hn: "fst (history_text env q (PDict kvs) uid) = Inr notice"
    by blast
  from n have st: "starts_with no_history_header notice"
    by (auto simp add: ltm_failed_def no_ltm_found_def)
  from assms(1) branch(3) have "kvs \<noteq> []" by (auto simp add: lookup_def)
  then have tc: "truthy (PDict kvs)" by simp
  from hn obtain mc where hp: "history_text env q (PDict kvs) uid = (Inr notice, mc)"
    by (cases "history_text env q (PDict kvs) uid") simp
  have pr: "prompt env q (PDict kvs) ?uc
              = (user_info (repr env) q (PDict kvs) ?uc notice, ?mc)"
    using tc by (simp add: prompt_def id hp)
  have ret: "\<exists>t. user_info (repr env) q (PDict kvs) ?uc notice = Inr t"
    if "(\<exists>d. lookup kvs ''department'' (PStr ''general'') = PStr d)
        \<and> (\<exists>ps. lookup kvs ''permissions'' (PList []) = PList (map PStr ps))"
  proof -
    from that obtain d ps where "lookup ?uc ''department'' PNone = PStr d"
      "lookup ?uc ''permissions'' PNone = PList (map PStr ps)"
      by (auto simp add: lookup_def)
    then show ?thesis by (rule user_info_returns)
  qed
  have rest: "(\<exists>before after. t = before @ notice @ after)
                   \<and> calls (process_request env q (PDict kvs)) = ?mc @ [InvokeAgent t]
                   \<and> map_of (reply (process_request env q (PDict kvs))) ''status''
                     = Some (PStr ''processed'')
                   \<and> map_of (reply (process_request env q (PDict kvs))) ''error'' = None
                   \<and> map_of (reply (process_request env q (PDict kvs))) ''message''
                     = Some message"
    if a: "user_info (repr env) q (PDict kvs) ?uc notice = Inr t
               \<and> invoke_async env t = Inr response
               \<and> reconstruct env response = Inr (message, st)"
    for t response message st
  proof -
    from a pr have p: "prompt env q (PDict kvs) ?uc = (Inr t, ?mc)" by simp
    from a have "\<exists>a b. t = a @ notice @ b" by (blast intro: user_info_contains)
    moreover from a process_request_succeeds [OF uc p, of response message st]
    have "map_of (reply (process_request env q (PDict kvs))) ''status'' = Some (PStr ''processed'')
         \<and> map_of (reply (process_request env q (PDict kvs))) ''error'' = None
         \<and> map_of (reply (process_request env q (PDict kvs))) ''message'' = Some message
         \<and> calls (process_request env q (PDict kvs)) = ?mc @ [InvokeAgent t]"
      by blast
    ultimately show ?thesis by blast
  qed
  from n st hn uc pr ret rest show ?thesis by blast
qed

theorem memory_failure_absorbed_witness:
  "fst (history_text timeout_env (PStr ''What is my name?'') (PDict [(''user_id'', PStr ''u1'')])
          (PStr ''u1''))
     = Inr (ltm_failed (repr timeout_env) (PStr ''u1''))
   \<and> map_of (reply (process_request timeout_env (PStr ''What is my name?'')
                      (PDict [(''user_id'', PStr ''u1'')]))) ''status''
     = Some (PStr ''processed'')
   \<and> (case calls (process_request timeout_env (PStr ''What is my name?'')
                     (PDict [(''user_id'', PStr ''u1'')])) of
        [MemoryClientInit, GetLastKTurns m a s k, InvokeAgent t] \<Rightarrow>
          contains (ltm_failed (repr timeout_env) (PStr ''u1'')) t
      | _ \<Rightarrow> False)"
proof -
  let ?q = "PStr ''What is my name?''"
  let ?kvs = "[(''user_id'', PStr ''u1'')]"
  let ?r = "PObj [(''message'', PDict [(''role'', PStr ''assistant''), (''content'', PStr ''Hello'')])]"
  let ?h = "history_text timeout_env ?q (PDict ?kvs) (PStr ''u1'')"
  have h2: "PStr ''u1'' = lookup ?kvs ''user_id'' (PStr ''anonymous'')"
    by (simp add: lookup_def)
  have h5: "\<exists>ev \<in> set (snd ?h). raised timeout_env ev"
    by code_simp
  have first: "fst ?h = Inr (ltm_failed (repr timeout_env) (PStr ''u1''))"
    by code_simp
  have mc: "snd ?h = [MemoryClientInit, GetLastKTurns ''mem'' (PStr ''u1'') (PStr ''u1'') 5]"
    by code_simp
  have dep: "\<exists>d. lookup ?kvs ''department'' (PStr ''general'') = PStr d"
    by (simp add: lookup_def)
  have per: "\<exists>ps. lookup ?kvs ''permissions'' (PList []) = PList (map PStr ps)"
    by (simp add: lookup_def)
  have inv: "invoke_async timeout_env t = Inr ?r" for t
    by (simp add: timeout_env_def stub_env_def)
  have rec: "reconstruct timeout_env ?r = Inr (PStr ''Hello'', no_tracking)"
    by code_simp
  from memory_failure_absorbed [OF h2 h5] obtain notice uc t where
    hn: "fst ?h = Inr notice"
    and t: "user_info (repr timeout_env) ?q (PDict ?kvs) uc notice = Inr t"
    and all: "\<forall>t response message st.
               user_info (repr timeout_env) ?q (PDict ?kvs) uc notice = Inr t
               \<and> invoke_async timeout_env t = Inr response
               \<and> reconstruct timeout_env response = Inr (message, st)
               \<longrightarrow> (\<exists>before after. t = before @ notice @ after)
                   \<and> calls (process_request timeout_env ?q (PDict ?kvs))
                     = snd ?h @ [InvokeAgent t]
                   \<and> map_of (reply (process_request timeout_env ?q (PDict ?kvs))) ''status''
                     = Some (PStr ''processed'')
                   \<and> map_of (reply (process_request timeout_env ?q (PDict ?kvs))) ''error'' = None
                   \<and> map_of (reply (process_request timeout_env ?q (PDict ?kvs))) ''message''
                     = Some message"
    using dep per by blast
  from hn first have notice: "notice = ltm_failed (repr timeout_env) (PStr ''u1'')" by simp
  from all t inv rec
  have c: "\<exists>before after. t = before @ notice @ after"
    and cs: "calls (process_request timeout_env ?q (PDict ?kvs)) = snd ?h @ [InvokeAgent t]"
    and s: "map_of (reply (process_request timeout_env ?q (PDict ?kvs))) ''status''
                     = Some (PStr ''processed'')"
    by blast+
  from c have "contains notice t" by (auto simp add: contains_append)
  with first s cs mc notice show ?thesis by simp
qed

text \<open>
  Claim C2 does not hold of the code. With no turn history, a known user, a recent-turn
  replay that finds nothing and a semantic search that returns one record, the block of
  \<^verbatim>\<open>USER PREFERENCES/FACTS\<close> is built with the record's text, and is then replaced:
  the \<^verbatim>\<open>else\<close> of \<^verbatim>\<open>if recent_turns\<close> assigns the no-history notice. The prompt
  sent to the decision step has the notice and not the record.
\<close>

theorem semantic_memories_overwritten:
  "semantic_block (repr preferences_env)
     (retrieve_memories preferences_env ''mem'' ''support/user/u1/preferences''
        (PStr ''What are my preferences?'') 3)
     = preferences_header @ ''Prefers email notifications'' @ nl @ preferences_footer
   \<and> history_text preferences_env (PStr ''What are my preferences?'')
        (PDict [(''user_id'', PStr ''u1'')]) (PStr ''u1'')
     = (Inr (no_ltm_found (repr preferences_env) (PStr ''u1'')),
        [MemoryClientInit,
         GetLastKTurns ''mem'' (PStr ''u1'') (PStr ''u1'') 5,
         RetrieveMemories ''mem'' ''support/user/u1/preferences''
           (PStr ''What are my preferences?'') 3])
   \<and> (case last (snd (send_message preferences_env
          (Value (PDict [(''input'', PStr ''What are my preferences?''),
                         (''context'', PDict [(''user_id'', PStr ''u1'')])])))) of
        InvokeAgent t \<Rightarrow>
          contains ''NO CONVERSATION HISTORY IN THIS SESSION'' t
          \<and> \<not> contains ''Prefers email notifications'' t
          \<and> \<not> contains ''LONG-TERM MEMORY (USER PREFERENCES/FACTS)'' t
      | _ \<Rightarrow> False)"
  by code_simp

subsection \<open>Session information\<close>

text \<open>
  Claim C5, as stated, fails at two requests. The empty request carries no session field,
  and its response is the envelope for a missing question, which has no
  \<^verbatim>\<open>session_info\<close> at all. And in a request whose \<^verbatim>\<open>session_id\<close> is present but
  empty, the alias used is not this first one but \<^verbatim>\<open>context.runtimeSessionId\<close>.
\<close>

theorem session_info_counterexample:
  "map_of (fst (send_message stub_env (Value (PDict [])))) ''session_info'' = None
   \<and> map_of (fst (send_message stub_env
        (Value (PDict [(''input'', PStr ''hi''), (''session_id'', PStr []),
                       (''context'', PDict [(''runtimeSessionId'', PStr ''s2'')])]))))
       ''session_info''
     = Some (PDict [(''runtime_session_id'', PStr ''s2''), (''note'', PStr managed_note)])"
  by code_simp

lemma runtime_session_id_dict:
  "runtime_session_id kvs (PDict c) =
     Inr (if truthy (lookup kvs ''session_id'' PNone) then lookup kvs ''session_id'' PNone
          else if truthy (lookup c ''runtimeSessionId'' PNone)
               then lookup c ''runtimeSessionId'' PNone
               else lookup c ''runtime_session_id'' PNone)"
  by (simp add: runtime_session_id_def Let_def lookup_def)

lemma prepare_session:
  assumes "prepare kvs = Inr (Some p)"
  shows "runtime_session_id kvs (context_of kvs) = Inr (session p)"
  using assms
  by (auto simp add: prepare_def Let_def ebind_eq_Inr split: if_splits)

lemma with_session_info:
  assumes "with_session v r = Inr r'"
  shows "map_of r' ''session_info''
           = Some (PDict [(''runtime_session_id'', if truthy v then v else PNone),
                          (''note'', PStr (if truthy v then managed_note
                                           else not_accessible_note))])"
    and "map_of r' ''session_id'' = (if truthy v then Some v else map_of r ''session_id'')"
  using assms
  by (auto simp add: with_session_def Let_def ebind_eq_Inr update_conv' split: if_splits)

lemma reply_cases:
  obtains (failed) e where "reply (process_request env q ctx) = failure env ctx e"
      "context_out (process_request env q ctx) = ctx"
  | (processed) uc message st c' where
      "response_dict env ctx uc message st = Inr (reply (process_request env q ctx), c')"
proof (cases "user_context ctx")
  case (Inl e)
  then have "reply (process_request env q ctx) = failure env ctx e"
    "context_out (process_request env q ctx) = ctx"
    by (simp_all add: process_request_def)
  then show ?thesis by (rule failed)
next
  case (Inr uc)
  obtain res mc where pr: "prompt env q ctx uc = (res, mc)"
    by (cases "prompt env q ctx uc")
  show ?thesis
  proof (cases res)
    case (Inl e)
    with Inr pr have "reply (process_request env q ctx) = failure env ctx e"
      "context_out (process_request env q ctx) = ctx"
      by (simp_all add: process_request_def)
    then show ?thesis by (rule failed)
  next
    case tx: (Inr t)
    show ?thesis
    proof (cases "ebind (invoke_async env t) (\<lambda>response.
                     ebind (reconstruct env response) (\<lambda>(message, st).
                     response_dict env ctx uc message st))")
      case (Inl e)
      with Inr pr tx have "reply (process_request env q ctx) = failure env ctx e"
        "context_out (process_request env q ctx) = ctx"
        by (simp_all add: process_request_def)
      then show ?thesis by (rule failed)
    next
      case ok: (Inr pair)
      obtain r c' where pair: "pair = (r, c')" by (cases pair)
      from ok pair obtain response message st where
        "response_dict env ctx uc message st = Inr (r, c')"
        by (auto simp add: ebind_eq_Inr)
      moreover from Inr pr tx ok pair have "reply (process_request env q ctx) = r"
        by (simp add: process_request_def)
      ultimately show ?thesis using processed by simp
    qed
  qed
qed

lemma response_dict_no_session_id:
  assumes "response_dict env ctx uc message st = Inr (r, c')"
  shows "map_of r ''session_id'' = None"
  using assms by (auto simp add: response_dict_def ebind_eq_Inr)

lemma bare_envelopes [simp]:
  "map_of (crashed e) ''session_info'' = None"
  "map_of no_question ''session_info'' = None"
  "map_of invalid_request ''session_info'' = None"
  by (simp_all add: crashed_def no_question_def invalid_request_def)

lemma note_names_limitation:
  "contains ''not accessible in the entrypoint'' not_accessible_note"
  by (simp add: not_accessible_note_def sq_def)

lemma reply_no_session_id: "map_of (reply (process_request env q ctx)) ''session_id'' = None"
proof (cases rule: reply_cases [of env q ctx])
  case (failed e)
  then show ?thesis by (simp add: failure_def)
next
  case (processed uc message st c')
  then show ?thesis by (rule response_dict_no_session_id)
qed

lemma prepare_context:
  assumes "prepare kvs = Inr (Some p)"
  shows "\<exists>c. context_of kvs = PDict c"
proof -
  from assms obtain uid where "user_id_for_ltm kvs (context_of kvs) = Inr uid"
    by (auto simp add: prepare_def Let_def ebind_eq_Inr split: if_splits)
  then show ?thesis
    by (cases "context_of kvs") (simp_all add: user_id_for_ltm_def)
qed

lemma recovered_session_same [simp]: "recovered_session sid = sid"
  by (simp add: recovered_session_def app_def)

lemma prepare_session_alias:
  assumes "prepare kvs = Inr (Some p)"
  shows "session p = session_alias kvs"
proof -
  from prepare_context [OF assms] obtain c where c: "context_of kvs = PDict c" by blast
  from prepare_session [OF assms] c have "Inr (session p) = runtime_session_id kvs (PDict c)"
    by simp
  with c show ?thesis
    by (simp add: runtime_session_id_dict session_alias_def field_of_def lookup_def)
qed

text \<open>
  Claim C5, amended. Every response to a request mapping is the envelope of a missing
  question, the envelope of \<^verbatim>\<open>send_message\<close>'s own handler, or carries
  \<^verbatim>\<open>session_info\<close>. In a response that carries it: when none of \<^verbatim>\<open>session_id\<close>,
  \<^verbatim>\<open>context.runtimeSessionId\<close> and \<^verbatim>\<open>context.runtime_session_id\<close> holds a non-empty
  value, \<^verbatim>\<open>session_info.runtime_session_id\<close> is null, the note says that the generated
  id is not accessible in the entry point, and no session value is put in its place (no
  top-level \<^verbatim>\<open>session_id\<close> is added); when one of them holds a non-empty value, the
  first such in this order is reported in \<^verbatim>\<open>session_info\<close> and as the top-level
  \<^verbatim>\<open>session_id\<close>.
\<close>

theorem session_info_explicit:
  assumes "send_message env request = (response, cs)"
      and "as_dict request = Inr (Some kvs)"
  shows "(response = no_question \<or> (\<exists>e. response = crashed e)
          \<or> map_of response ''session_info'' \<noteq> None)
         \<and> (map_of response ''session_info'' \<noteq> None \<longrightarrow>
              (if truthy (session_alias kvs)
               then map_of response ''session_info''
                      = Some (PDict [(''runtime_session_id'', session_alias kvs),
                                     (''note'', PStr managed_note)])
                    \<and> map_of response ''session_id'' = Some (session_alias kvs)
               else map_of response ''session_info''
                      = Some (PDict [(''runtime_session_id'', PNone),
                                     (''note'', PStr not_accessible_note)])
                    \<and> map_of response ''session_id'' = None))
         \<and> contains ''not accessible in the entrypoint'' not_accessible_note"
  using assms(1)
proof (cases rule: send_message_cases)
  case (crashed e)
  with note_names_limitation show ?thesis by auto
next
  case invalid
  with assms(2) show ?thesis by simp
next
  case (no_question kvs')
  with note_names_limitation show ?thesis by auto
next
  case (full kvs' p)
  with assms(2) have prep: "prepare kvs = Inr (Some p)" by simp
  let ?out = "process_request env (question p) (enhanced p)"
  from full(3) obtain r1 r2 where
    r1: "with_details (repr env) p (reply ?out) = Inr r1"
    and r2: "with_memory_info p (context_out ?out) r1 = Inr r2"
    and r3: "with_session (recovered_session (session p)) r2 = Inr response"
    by (auto simp add: finish_def ebind_eq_Inr)
  have s: "session p = session_alias kvs" by (rule prepare_session_alias [OF prep])
  have none: "map_of r2 ''session_id'' = None"
    using with_details_keeps [OF r1, of "''session_id''"]
      with_memory_info_keeps [OF r2, of "''session_id''"] reply_no_session_id [of env]
    by simp
  from r3 s have "with_session (session_alias kvs) r2 = Inr response" by simp
  from with_session_info [OF this] none note_names_limitation show ?thesis by auto
qed

theorem session_info_explicit_witness:
  "map_of (fst (send_message stub_env (Value (PDict [(''input'', PStr ''hi'')]))))
     ''session_info''
     = Some (PDict [(''runtime_session_id'', PNone), (''note'', PStr not_accessible_note)])
   \<and> map_of (fst (send_message stub_env
        (Value (PDict [(''input'', PStr ''hi''), (''session_id'', PStr ''sess-abcde''),
                       (''context'', PDict [(''runtimeSessionId'', PStr ''other'')])]))))
     ''session_info''
     = Some (PDict [(''runtime_session_id'', PStr ''sess-abcde''), (''note'', PStr managed_note)])"
proof -
  let ?ka = "[(''input'', PStr ''hi'')]"
  let ?kb = "[(''input'', PStr ''hi''), (''session_id'', PStr ''sess-abcde''),
              (''context'', PDict [(''runtimeSessionId'', PStr ''other'')])]"
  let ?a = "Value (PDict ?ka)"
  let ?b = "Value (PDict ?kb)"
  have a1: "send_message stub_env ?a = (fst (send_message stub_env ?a), snd (send_message stub_env ?a))"
    by simp
  have a2: "as_dict ?a = Inr (Some ?ka)" by (simp add: as_dict_def)
  have a3: "\<not> truthy (session_alias ?ka)" by code_simp
  have a4: "map_of (fst (send_message stub_env ?a)) ''session_info'' \<noteq> None" by code_simp
  have b1: "send_message stub_env ?b = (fst (send_message stub_env ?b), snd (send_message stub_env ?b))"
    by simp
  have b2: "as_dict ?b = Inr (Some ?kb)" by (simp add: as_dict_def)
  have b3: "session_alias ?kb = PStr ''sess-abcde''" by code_simp
  have b4: "map_of (fst (send_message stub_env ?b)) ''session_info'' \<noteq> None" by code_simp
  from session_info_explicit [OF a1 a2] a3 a4
  have one: "map_of (fst (send_message stub_env ?a)) ''session_info''
     = Some (PDict [(''runtime_session_id'', PNone), (''note'', PStr not_accessible_note)])"
    by simp
  from session_info_explicit [OF b1 b2] b4
  have two: "map_of (fst (send_message stub_env ?b)) ''session_info''
     = Some (PDict [(''runtime_session_id'', PStr ''sess-abcde''), (''note'', PStr managed_note)])"
    unfolding b3 by simp
  from one two show ?thesis by simp
qed

subsection \<open>The gate for a missing question\<close>

text \<open>
  Claim C4, as stated, fails: in the request \<^verbatim>\<open>{"input": 5}\<close> none of the three fields
  holds a non-empty text, yet the request passes the gate. The decision step is called,
  with a prompt that ends in the request \<open>5\<close>, and the response has status
  \<open>processed\<close>.
\<close>

theorem number_passes_gate_counterexample:
  "fst (send_message stub_env (Value (PDict [(''input'', PInt 5)]))) \<noteq> no_question
   \<and> map_of (fst (send_message stub_env (Value (PDict [(''input'', PInt 5)])))) ''status''
     = Some (PStr ''processed'')
   \<and> (case snd (send_message stub_env (Value (PDict [(''input'', PInt 5)]))) of
        [InvokeAgent t] \<Rightarrow> contains ''Customer Request: 5'' t
      | _ \<Rightarrow> False)"
  by code_simp

lemma prepare_question:
  "prepare kvs = Inr None
   \<longleftrightarrow> \<not> truthy (lookup kvs ''input'' PNone) \<and> \<not> truthy (lookup kvs ''prompt'' PNone)
       \<and> \<not> truthy (lookup kvs ''question'' PNone)"
proof -
  have "prepare kvs = Inr None \<longleftrightarrow> \<not> truthy (question_of kvs)"
    by (cases "truthy (question_of kvs)")
       (auto simp add: prepare_def Let_def ebind_eq_Inr)
  then show ?thesis by (auto simp add: question_of_def Let_def)
qed

lemma finish_session_info:
  assumes "finish env p out = Inr response"
  shows "map_of response ''session_info'' \<noteq> None"
proof -
  from assms obtain r2 where "with_session (recovered_session (session p)) r2 = Inr response"
    by (auto simp add: finish_def ebind_eq_Inr)
  from with_session_info(1) [OF this] show ?thesis by simp
qed

text \<open>
  Claim C4, amended. A request, once it is a dictionary, in which none of \<^verbatim>\<open>input\<close>,
  \<^verbatim>\<open>prompt\<close>, \<^verbatim>\<open>question\<close> holds a value that counts as true (a missing field, null,
  the empty text, zero, false, an empty list or dictionary) gets the envelope whose error
  text names the three aliases, and neither the Memory Store nor the decision step has
  been called when it is returned. A request in which one of the three holds any other
  value, text or not, does not get this envelope.
\<close>

theorem missing_question_gate:
  assumes "as_dict request = Inr (Some kvs)"
  shows "(\<not> truthy (lookup kvs ''input'' PNone) \<and> \<not> truthy (lookup kvs ''prompt'' PNone)
          \<and> \<not> truthy (lookup kvs ''question'' PNone)
          \<longrightarrow> send_message env request = (no_question, []))
         \<and> (truthy (lookup kvs ''input'' PNone) \<or> truthy (lookup kvs ''prompt'' PNone)
            \<or> truthy (lookup kvs ''question'' PNone)
            \<longrightarrow> fst (send_message env request) \<noteq> no_question)
         \<and> (\<exists>m. no_question = [(''error'', PStr m)]
                \<and> contains (sq @ ''input'' @ sq) m \<and> contains (sq @ ''prompt'' @ sq) m
                \<and> contains (sq @ ''question'' @ sq) m)"
proof (intro conjI impI)
  assume "\<not> truthy (lookup kvs ''input'' PNone) \<and> \<not> truthy (lookup kvs ''prompt'' PNone)
          \<and> \<not> truthy (lookup kvs ''question'' PNone)"
  then have "prepare kvs = Inr None" by (simp add: prepare_question)
  then show "send_message env request = (no_question, [])"
    using assms by (simp add: send_message_def)
next
  assume t: "truthy (lookup kvs ''input'' PNone) \<or> truthy (lookup kvs ''prompt'' PNone)
            \<or> truthy (lookup kvs ''question'' PNone)"
  then have prep: "prepare kvs \<noteq> Inr None" by (auto simp add: prepare_question)
  obtain response cs where sm: "send_message env request = (response, cs)"
    by (cases "send_message env request")
  then have "response \<noteq> no_question"
  proof (cases rule: send_message_cases)
    case (crashed e)
    then show ?thesis by (simp add: crashed_def no_question_def)
  next
    case invalid
    with assms show ?thesis by simp
  next
    case (no_question kvs')
    with assms prep show ?thesis by simp
  next
    case (full kvs' p)
    from finish_session_info [OF full(3)] show ?thesis by auto
  qed
  with sm show "fst (send_message env request) \<noteq> no_question" by simp
next
  show "\<exists>m. no_question = [(''error'', PStr m)]
                \<and> contains (sq @ ''input'' @ sq) m \<and> contains (sq @ ''prompt'' @ sq) m
                \<and> contains (sq @ ''question'' @ sq) m"
    by (simp add: no_question_def sq_def)
qed

theorem missing_question_gate_witness:
  "send_message stub_env (Value (PDict [(''user_id'', PStr ''u1''), (''input'', PStr [])]))
     = (no_question, [])
   \<and> fst (send_message stub_env (Value (PDict [(''prompt'', PStr ''hi'')]))) \<noteq> no_question"
proof -
  have "send_message stub_env (Value (PDict [(''user_id'', PStr ''u1''), (''input'', PStr [])]))
     = (no_question, [])"
    using missing_question_gate
          [of "Value (PDict [(''user_id'', PStr ''u1''), (''input'', PStr [])])"
              "[(''user_id'', PStr ''u1''), (''input'', PStr [])]" stub_env]
    by (simp add: as_dict_def lookup_def)
  moreover
  have "fst (send_message stub_env (Value (PDict [(''prompt'', PStr ''hi'')]))) \<noteq> no_question"
    using missing_question_gate
          [of "Value (PDict [(''prompt'', PStr ''hi'')])" "[(''prompt'', PStr ''hi'')]" stub_env]
    by (simp add: as_dict_def lookup_def)
  ultimately show ?thesis by simp
qed

subsection \<open>Identity resolution\<close>

text \<open>
  Claim C1, as stated, fails at two requests. In
  \<^verbatim>\<open>{"input": "hi", "user_id": 42}\<close> the identity is the number 42, which is no string,
  and this number is what \<^verbatim>\<open>process_request\<close> receives as the \<^verbatim>\<open>user_id\<close> of its
  context. In \<^verbatim>\<open>{"input": "hi", "session_id": "s1", "context": "abc"}\<close> the resolution
  raises, a text having no \<^verbatim>\<open>get\<close>, and the request ends in the envelope of the
  handler of \<^verbatim>\<open>send_message\<close> before anything is called.
\<close>

theorem identity_counterexample:
  "user_id_for_ltm [(''input'', PStr ''hi''), (''user_id'', PInt 42)]
     (context_of [(''input'', PStr ''hi''), (''user_id'', PInt 42)]) = Inr (PInt 42)
   \<and> (case prepare [(''input'', PStr ''hi''), (''user_id'', PInt 42)] of
        Inr (Some p) \<Rightarrow> dict_get (enhanced p) ''user_id'' PNone
      | _ \<Rightarrow> Inl (Raised [])) = Inr (PInt 42)
   \<and> user_id_for_ltm
        [(''input'', PStr ''hi''), (''session_id'', PStr ''s1''), (''context'', PStr ''abc'')]
        (context_of
          [(''input'', PStr ''hi''), (''session_id'', PStr ''s1''), (''context'', PStr ''abc'')])
     = Inl (AttributeError (sq @ ''str'' @ sq @ '' object has no attribute '' @ sq @ ''get'' @ sq))
   \<and> send_message stub_env
        (Value (PDict [(''input'', PStr ''hi''), (''session_id'', PStr ''s1''),
                       (''context'', PStr ''abc'')]))
     = (crashed (AttributeError
                   (sq @ ''str'' @ sq @ '' object has no attribute '' @ sq @ ''get'' @ sq)), [])"
  by code_simp

lemma prepare_no_mapping:
  assumes "\<forall>c. context_of request \<noteq> PDict c" and "truthy (question_of request)"
  shows "prepare request = Inl (no_attribute (context_of request) ''get'')"
proof -
  have g: "dict_get (context_of request) k d = Inl (no_attribute (context_of request) ''get'')"
    for k d
    using assms(1) by (cases "context_of request") simp_all
  show ?thesis
    using assms(2)
    by (simp add: prepare_def Let_def runtime_session_id_def user_id_for_ltm_def g)
qed

text \<open>
  Claim C1, amended. For a request whose \<^verbatim>\<open>context\<close> is a mapping (or is missing or empty,
  which \<^verbatim>\<open>send_message\<close> turns into the empty mapping), the resolution returns (it does
  not raise), and the identity is \<^verbatim>\<open>context.user_id\<close> when that holds a value that counts
  as true (for a text: a non-empty one), else the top-level \<^verbatim>\<open>user_id\<close> when that holds
  such a value, else \<open>anonymous\<close>. The value is taken as it is: when the two fields hold
  text or nothing, the identity is a non-empty text, and a text is never the empty one.
  The same value is what \<^verbatim>\<open>process_request\<close> receives as the \<^verbatim>\<open>user_id\<close> of its context.
  For a request whose \<^verbatim>\<open>context\<close> counts as true and is no mapping, the resolution
  raises, and a request with a question ends in the envelope of the handler, nothing
  having been called.
\<close>

theorem identity_precedence:
  "(\<forall>c. context_of request = PDict c \<longrightarrow>
      user_id_for_ltm request (context_of request) =
        Inr (if truthy (lookup c ''user_id'' PNone) then lookup c ''user_id'' PNone
             else if truthy (lookup request ''user_id'' PNone)
                  then lookup request ''user_id'' PNone
                  else PStr ''anonymous'')
      \<and> ((\<forall>v \<in> {lookup c ''user_id'' PNone, lookup request ''user_id'' PNone}.
             v = PNone \<or> (\<exists>s. v = PStr s)) \<longrightarrow>
          (\<exists>s. s \<noteq> [] \<and> user_id_for_ltm request (context_of request) = Inr (PStr s))))
   \<and> user_id_for_ltm request (context_of request) \<noteq> Inr (PStr [])
   \<and> (\<forall>p. prepare request = Inr (Some p) \<longrightarrow>
          Inr (lookup (caller p) ''user_id'' PNone)
            = user_id_for_ltm request (context_of request)
          \<and> dict_get (enhanced p) ''user_id'' PNone
            = user_id_for_ltm request (context_of request))
   \<and> ((\<forall>c. context_of request \<noteq> PDict c) \<longrightarrow>
        user_id_for_ltm request (context_of request)
          = Inl (no_attribute (context_of request) ''get'')
        \<and> (truthy (question_of request) \<longrightarrow>
             (\<forall>env. send_message env (Value (PDict request))
                      = (crashed (no_attribute (context_of request) ''get''), []))))"
proof (intro conjI allI impI)
  fix c assume c: "context_of request = PDict c"
  show "user_id_for_ltm request (context_of request) =
           Inr (if truthy (lookup c ''user_id'' PNone) then lookup c ''user_id'' PNone
                else if truthy (lookup request ''user_id'' PNone)
                     then lookup request ''user_id'' PNone
                     else PStr ''anonymous'')"
    by (simp add: c user_id_for_ltm_def lookup_def Let_def)
  assume "\<forall>v \<in> {lookup c ''user_id'' PNone, lookup request ''user_id'' PNone}.
                v = PNone \<or> (\<exists>s. v = PStr s)"
  then show "\<exists>s. s \<noteq> [] \<and> user_id_for_ltm request (context_of request) = Inr (PStr s)"
    by (auto simp add: c user_id_for_ltm_def lookup_def Let_def)
next
  show "user_id_for_ltm request (context_of request) \<noteq> Inr (PStr [])"
    by (cases "context_of request")
       (auto simp add: user_id_for_ltm_def Let_def split: option.splits)
next
  fix p assume p: "prepare request = Inr (Some p)"
  from prepare_context [OF p] obtain c where c: "context_of request = PDict c" by blast
  from p obtain sid uid uc ec where
    uid: "user_id_for_ltm request (PDict c) = Inr uid"
    and uc: "caller_context (PDict c) uid sid = Inr uc"
    and ec: "enhanced_context (PDict c) uc sid = Inr ec"
    and pe: "enhanced p = ec" "caller p = uc"
    by (auto simp add: prepare_def c Let_def ebind_eq_Inr split: if_splits)
  from uc have ucu: "lookup uc ''user_id'' PNone = uid"
    by (auto simp add: caller_context_def lookup_def)
  from uc ec have "dict_get ec ''user_id'' PNone = Inr uid"
    by (auto simp add: caller_context_def enhanced_context_def map_of_merged lookup_def
          map_add_def)
  with ucu uid pe
  show "Inr (lookup (caller p) ''user_id'' PNone) = user_id_for_ltm request (context_of request)"
    and "dict_get (enhanced p) ''user_id'' PNone = user_id_for_ltm request (context_of request)"
    by (simp_all add: c)
next
  assume n: "\<forall>c. context_of request \<noteq> PDict c"
  then show "user_id_for_ltm request (context_of request)
          = Inl (no_attribute (context_of request) ''get'')"
    by (cases "context_of request") (simp_all add: user_id_for_ltm_def)
  fix env assume "truthy (question_of request)"
  from prepare_no_mapping [OF n this]
  show "send_message env (Value (PDict request))
          = (crashed (no_attribute (context_of request) ''get''), [])"
    by (simp add: send_message_def as_dict_def)
qed

theorem identity_precedence_witness:
  "user_id_for_ltm
     [(''input'', PStr ''hi''), (''user_id'', PStr ''top''),
      (''context'', PDict [(''user_id'', PStr ''ctx'')])]
     (PDict [(''user_id'', PStr ''ctx'')]) = Inr (PStr ''ctx'')
   \<and> (case prepare [(''input'', PStr ''hi''), (''user_id'', PStr ''top''),
                     (''context'', PDict [(''user_id'', PStr ''ctx'')])] of
        Inr (Some p) \<Rightarrow> dict_get (enhanced p) ''user_id'' PNone
      | _ \<Rightarrow> Inl (Raised [])) = Inr (PStr ''ctx'')
   \<and> send_message stub_env (Value (PDict [(''input'', PStr ''hi''), (''context'', PInt 7)]))
     = (crashed (no_attribute (PInt 7) ''get''), [])"
proof -
  let ?r = "[(''input'', PStr ''hi''), (''user_id'', PStr ''top''),
             (''context'', PDict [(''user_id'', PStr ''ctx'')])]"
  let ?n = "[(''input'', PStr ''hi''), (''context'', PInt 7)]"
  have c: "context_of ?r = PDict [(''user_id'', PStr ''ctx'')]"
    by (simp add: context_of_def lookup_def)
  have one: "user_id_for_ltm ?r (PDict [(''user_id'', PStr ''ctx'')]) = Inr (PStr ''ctx'')"
    using identity_precedence [of ?r] c by (simp add: lookup_def)
  have two: "(case prepare ?r of
        Inr (Some p) \<Rightarrow> dict_get (enhanced p) ''user_id'' PNone
      | _ \<Rightarrow> Inl (Raised [])) = Inr (PStr ''ctx'')"
    using identity_precedence [of ?r] c
    by (simp add: context_of_def lookup_def prepare_def question_of_def runtime_session_id_def
        user_id_for_ltm_def caller_context_def enhanced_context_def merged_def)
  have cn: "context_of ?n = PInt 7" by (simp add: context_of_def lookup_def)
  have qn: "truthy (question_of ?n)" by (simp add: question_of_def lookup_def)
  have three: "send_message stub_env (Value (PDict ?n))
     = (crashed (no_attribute (PInt 7) ''get''), [])"
    using identity_precedence [of ?n] cn qn by simp
  from one two three show ?thesis by simp
qed

subsection \<open>Error envelopes\<close>

text \<open>
  Claim C6 does not hold of the code. For the empty request, which has no question, and
  for a request that is no dictionary, the two early returns of \<^verbatim>\<open>send_message\<close> give
  an envelope that consists of the \<^verbatim>\<open>error\<close> text alone: it has neither \<^verbatim>\<open>status\<close>
  nor \<^verbatim>\<open>context\<close>, which the handlers of \<^verbatim>\<open>process_request\<close> and of
  \<^verbatim>\<open>send_message\<close> do set.
\<close>

theorem validation_envelopes_lack_status:
  "fst (send_message stub_env (Value (PDict []))) = no_question
   \<and> map_of no_question ''status'' = None \<and> map_of no_question ''context'' = None
   \<and> fst (send_message stub_env (Value (PStr ''hello''))) = invalid_request
   \<and> map_of invalid_request ''status'' = None \<and> map_of invalid_request ''context'' = None"
  by (simp add: send_message_def as_dict_def prepare_def question_of_def lookup_def
        no_question_def invalid_request_def)

lemma enhanced_echo:
  assumes "prepare kvs = Inr (Some p)" and "context_of kvs = PDict c"
  shows "\<exists>ekvs. enhanced p = PDict ekvs \<and> ekvs \<noteq> []
           \<and> (\<forall>k. k \<notin> router_keys \<longrightarrow> map_of ekvs k = map_of c k)"
proof -
  from assms obtain sid uid uc ec where
    uc: "caller_context (PDict c) uid sid = Inr uc"
    and ec: "enhanced_context (PDict c) uc sid = Inr ec"
    and pe: "enhanced p = ec"
    by (auto simp add: prepare_def Let_def ebind_eq_Inr split: if_splits)
  from uc obtain a b d e f where
    ucl: "uc = [(''user_id'', uid), (''username'', a), (''customer_tier'', b),
                (''department'', d), (''permissions'', e), (''authenticated'', f),
                (''runtime_session_id'', sid)]"
    by (auto simp add: caller_context_def)
  let ?extra = "uc @ [(''memory_enabled'', PBool True),
                      (''conversation_context'', lookup c ''conversation_history'' (PList [])),
                      (''session_id'', sid)]"
  from ec have e: "ec = PDict (merged c ?extra)"
    by (simp add: enhanced_context_def)
  have "map_of (merged c ?extra) ''memory_enabled'' = Some (PBool True)"
    by (simp add: map_of_merged ucl)
  then have ne: "merged c ?extra \<noteq> []" by auto
  have "map_of (merged c ?extra) k = map_of c k" if "k \<notin> router_keys" for k
    using that by (simp add: map_of_merged ucl router_keys_def map_add_def)
  with e ne pe show ?thesis by simp
qed

lemma with_session_context:
  assumes "with_session v r = Inr r'" and "map_of r ''context'' = Some (PDict ekvs)"
  shows "\<exists>ctx. map_of r' ''context'' = Some (PDict ctx)
           \<and> (\<forall>k. k \<noteq> ''runtime_session_id'' \<and> k \<noteq> ''session_id'' \<longrightarrow>
                  map_of ctx k = map_of ekvs k)"
proof (cases "truthy v")
  case False
  with assms show ?thesis by (auto simp add: with_session_def update_conv')
next
  case True
  let ?r2 = "AList.update ''session_id'' v
               (AList.update ''session_info''
                  (PDict [(''runtime_session_id'', v), (''note'', PStr managed_note)]) r)"
  from assms(2) have c: "map_of ?r2 ''context'' = Some (PDict ekvs)"
    by (simp add: update_conv')
  with True assms(1)
  have "r' = AList.update ''context''
               (PDict (AList.update ''session_id'' v
                         (AList.update ''runtime_session_id'' v ekvs))) ?r2"
    by (simp add: with_session_def Let_def lookup_def set_item_def)
  then show ?thesis by (simp add: update_conv')
qed

text \<open>
  What does hold of the error envelopes. Every response with an \<^verbatim>\<open>error\<close> field has
  a non-empty error text and no \<^verbatim>\<open>message\<close> field, and is of one of three shapes:
  the envelope of an invalid request or of a missing question, which has neither
  \<^verbatim>\<open>status\<close> nor \<^verbatim>\<open>context\<close>; the envelope of \<^verbatim>\<open>send_message\<close>'s own handler,
  which has status \<open>error\<close> and no \<^verbatim>\<open>context\<close>; or the envelope of
  \<^verbatim>\<open>process_request\<close>'s handler (a failed decision step), which has status \<open>error\<close>
  and echoes the context: every entry of the caller's context under a key the Router
  does not write itself is in it unchanged.
\<close>

theorem error_envelope_shape:
  assumes "send_message env request = (response, cs)"
      and "map_of response ''error'' \<noteq> None"
  shows "(\<exists>m. m \<noteq> [] \<and> map_of response ''error'' = Some (PStr m))
         \<and> map_of response ''message'' = None
         \<and> ((response = invalid_request \<or> response = no_question)
                \<and> map_of response ''status'' = None \<and> map_of response ''context'' = None
             \<or> (\<exists>e. response = crashed e)
                \<and> map_of response ''status'' = Some (PStr ''error'')
                \<and> map_of response ''context'' = None
             \<or> map_of response ''status'' = Some (PStr ''error'')
                \<and> (\<exists>kvs c ctx. as_dict request = Inr (Some kvs) \<and> context_of kvs = PDict c
                      \<and> map_of response ''context'' = Some (PDict ctx)
                      \<and> (\<forall>k. k \<notin> router_keys \<longrightarrow> map_of ctx k = map_of c k)))"
  using assms(1)
proof (cases rule: send_message_cases)
  case (crashed e)
  have "map_of (crashed e) ''error'' = Some (PStr (''Failed to process request: '' @ err_str e))"
    "map_of (crashed e) ''message'' = None"
    "map_of (crashed e) ''status'' = Some (PStr ''error'')"
    "map_of (crashed e) ''context'' = None"
    by (simp_all add: crashed_def)
  with crashed show ?thesis by auto
next
  case invalid
  then show ?thesis by (simp add: invalid_request_def)
next
  case (no_question kvs)
  then show ?thesis by (simp add: no_question_def sq_def)
next
  case (full kvs p)
  let ?out = "process_request env (question p) (enhanced p)"
  have keep: "map_of response k = map_of (reply ?out) k"
    if "k \<in> {''error'', ''message'', ''status''}" for k
    using finish_keeps [OF full(3), of k] that by auto
  from prepare_context [OF full(2)] obtain c where c: "context_of kvs = PDict c" by blast
  from enhanced_echo [OF full(2) c] obtain ekvs where
    ekvs: "enhanced p = PDict ekvs" "ekvs \<noteq> []"
    and echo: "\<forall>k. k \<notin> router_keys \<longrightarrow> map_of ekvs k = map_of c k"
    by blast
  show ?thesis
  proof (cases rule: reply_cases [of env "question p" "enhanced p"])
    case (processed uc message st c')
    from response_dict_fields(3) [OF processed] keep [of "''error''"] assms(2)
    show ?thesis by simp
  next
    case (failed e)
    from full(3) obtain r1 r2 where
      r1: "with_details (repr env) p (reply ?out) = Inr r1"
      and r2: "with_memory_info p (context_out ?out) r1 = Inr r2"
      and r3: "with_session (recovered_session (session p)) r2 = Inr response"
      by (auto simp add: finish_def ebind_eq_Inr)
    from failed ekvs have "map_of (reply ?out) ''context'' = Some (PDict ekvs)"
      by simp
    with with_details_keeps [OF r1, of "''context''"]
      with_memory_info_keeps [OF r2, of "''context''"]
    have "map_of r2 ''context'' = Some (PDict ekvs)" by simp
    from with_session_context [OF r3 this] obtain ctx where
      ctx: "map_of response ''context'' = Some (PDict ctx)"
      and same: "\<forall>k. k \<noteq> ''runtime_session_id'' \<and> k \<noteq> ''session_id'' \<longrightarrow>
                  map_of ctx k = map_of ekvs k"
      by blast
    have "\<forall>k. k \<notin> router_keys \<longrightarrow> map_of ctx k = map_of c k"
      using same echo by (simp add: router_keys_def)
    with ctx c full(1) have echoed:
      "\<exists>kvs c ctx. as_dict request = Inr (Some kvs) \<and> context_of kvs = PDict c
                      \<and> map_of response ''context'' = Some (PDict ctx)
                      \<and> (\<forall>k. k \<notin> router_keys \<longrightarrow> map_of ctx k = map_of c k)"
      by blast
    from failed keep [of "''error''"] keep [of "''message''"] keep [of "''status''"]
    have "map_of response ''error'' = Some (PStr (''Failed to process request: '' @ err_str e))"
      "map_of response ''message'' = None"
      "map_of response ''status'' = Some (PStr ''error'')"
      by simp_all
    with echoed show ?thesis by auto
  qed
qed

theorem error_envelope_shape_witness:
  "map_of (fst (send_message down_env
      (Value (PDict [(''input'', PStr ''hi''),
                     (''context'', PDict [(''user_id'', PStr ''u1''), (''locale'', PStr ''en'')])]))))
     ''message'' = None
   \<and> (\<exists>ctx. map_of (fst (send_message down_env
        (Value (PDict [(''input'', PStr ''hi''),
                       (''context'', PDict [(''user_id'', PStr ''u1''), (''locale'', PStr ''en'')])]))))
         ''context'' = Some (PDict ctx)
        \<and> map_of ctx ''locale'' = Some (PStr ''en''))"
proof -
  let ?kvs = "[(''input'', PStr ''hi''),
               (''context'', PDict [(''user_id'', PStr ''u1''), (''locale'', PStr ''en'')])]"
  let ?resp = "fst (send_message down_env (Value (PDict ?kvs)))"
  have h1: "send_message down_env (Value (PDict ?kvs))
              = (?resp, snd (send_message down_env (Value (PDict ?kvs))))"
    by simp
  have h2: "map_of ?resp ''error'' \<noteq> None" by code_simp
  have h3: "map_of ?resp ''context'' \<noteq> None" by code_simp
  have d: "as_dict (Value (PDict ?kvs)) = Inr (Some ?kvs)" by (simp add: as_dict_def)
  have c: "context_of ?kvs = PDict [(''user_id'', PStr ''u1''), (''locale'', PStr ''en'')]"
    by (simp add: context_of_def lookup_def)
  have k: "''locale'' \<notin> router_keys" by (simp add: router_keys_def)
  note shape = error_envelope_shape [OF h1 h2]
  from shape have m: "map_of ?resp ''message'' = None" by blast
  from shape h3 obtain kvs c ctx where
    o1: "as_dict (Value (PDict ?kvs)) = Inr (Some kvs)" and o2: "context_of kvs = PDict c"
    and o3: "map_of ?resp ''context'' = Some (PDict ctx)"
    and o4: "\<forall>k. k \<notin> router_keys \<longrightarrow> map_of ctx k = map_of c k"
    by blast
  from o1 d have "kvs = ?kvs" by simp
  with o2 c have cv: "c = [(''user_id'', PStr ''u1''), (''locale'', PStr ''en'')]" by simp
  from o4 k have "map_of ctx ''locale'' = map_of c ''locale''" by blast
  also have "\<dots> = Some (PStr ''en'')" unfolding cv by simp
  finally have "map_of ctx ''locale'' = Some (PStr ''en'')" .
  with o3 have "\<exists>ctx. map_of ?resp ''context'' = Some (PDict ctx)
                  \<and> map_of ctx ''locale'' = Some (PStr ''en'')"
    by blast
  with m show ?thesis by blast
qed

end
